theory Spec2Isabelle
  imports Main
begin

section \<open>The tap-click activation engine (src/core/src/utils/tap-click.ts)\<close>

subsection \<open>Constants\<close>

definition ACTIVATED :: string where
  "ACTIVATED = ''activated''"

definition ADD_ACTIVATED_DEFERS :: int where
  "ADD_ACTIVATED_DEFERS = 200"

definition CLEAR_STATE_DEFERS :: int where
  "CLEAR_STATE_DEFERS = 200"

definition MOUSE_WAIT :: int where
  "MOUSE_WAIT = 2500"

subsection \<open>Data model\<close>

text \<open>
  An element is a reference; two references are the same element when they are equal.
  Its mutable class list lives in the state. A composed path also holds entries that
  have no class list (the document, the window, shadow roots): the source guards
  them with \<^verbatim>\<open>el.classList && ...\<close>.
\<close>

type_synonym elem = nat

type_synonym timer_id = nat

datatype node = Element elem | NoClassList

text \<open>
  A ripple sub-element found by \<^verbatim>\<open>querySelector('ion-ripple-effect')\<close>;
  \<open>hasAddRipple\<close> says whether its \<^verbatim>\<open>addRipple\<close> property is truthy.
\<close>

record ripple_el =
  rippleId :: nat
  hasAddRipple :: bool

text \<open>
  What the handlers read from, and do to, an input event. \<open>timeStamp\<close> is the value
  \<^verbatim>\<open>now(ev)\<close> returns and \<open>coord\<close> the pair \<^verbatim>\<open>pointerCoord(ev)\<close>
  returns (both helpers live in \<^verbatim>\<open>./helpers\<close>); \<open>composedPath\<close> is \<open>None\<close> when the
  event has no \<^verbatim>\<open>composedPath\<close> method; \<open>targetChain\<close> is the event target followed by
  its ancestors, innermost first, which is what \<^verbatim>\<open>ev.target.closest\<close> walks, and is
  \<open>None\<close> when the target is not an element (a text node, the document) and so has no
  \<^verbatim>\<open>closest\<close> method.
  The two last fields record that \<^verbatim>\<open>preventDefault()\<close> and
  \<^verbatim>\<open>stopPropagation()\<close> have been called on the event.
\<close>

record event =
  timeStamp :: int
  coord :: "int \<times> int"
  composedPath :: "node list option"
  targetChain :: "elem list option"
  cancelable :: bool
  preventDefaultCalled :: bool
  stopPropagationCalled :: bool

text \<open>The two closures the module hands to \<^verbatim>\<open>setTimeout\<close>.\<close>

datatype callback =
  AddActivatedCb elem int int
| ClearActivatedCb elem

record timer =
  setAt :: int
  delay :: int
  callback :: callback

text \<open>
  The exceptions a listener can end with: the \<^verbatim>\<open>throw new Error('internal error')\<close> of
  \<^verbatim>\<open>setActivatedElement\<close>, and the TypeError of calling \<^verbatim>\<open>closest\<close> on a target that
  has no such method.
\<close>

datatype error = InternalError | TypeError

text \<open>
  The closure variables of \<^verbatim>\<open>startTapClick\<close> (\<open>lastTouch\<close> to \<open>clearDefers\<close>), followed
  by the part of the platform they act on: the class list of every element, the
  ripple sub-elements the DOM offers, the clock \<^verbatim>\<open>Date.now()\<close> reads, the table of
  pending timers with the next identifier \<^verbatim>\<open>setTimeout\<close> returns, and the log of the calls
  made to ripple capabilities. \<open>activeRipple\<close> is the index, in \<open>addRippleCalls\<close>, of the
  call whose promise the variable holds.
\<close>

record state =
  lastTouch :: int
  lastActivated :: int
  cancelled :: bool
  scrolling :: bool
  activatableEle :: "elem option"
  activeRipple :: "nat option"
  activeDefer :: "timer_id option"
  useRippleEffect :: bool
  clearDefers :: "elem \<rightharpoonup> timer_id"
  classList :: "elem \<Rightarrow> string set"
  shadowRoot :: "elem \<rightharpoonup> ripple_el option"
  lightRipple :: "elem \<Rightarrow> ripple_el option"
  clock :: int
  timers :: "timer_id \<rightharpoonup> timer"
  nextTimer :: timer_id
  addRippleCalls :: "(ripple_el \<times> int \<times> int) list"
  rippleRemovals :: "nat list"

subsection \<open>Helpers and platform calls\<close>

text \<open>
  Modelled from the spec: \<^verbatim>\<open>now\<close> and \<^verbatim>\<open>pointerCoord\<close> of \<^verbatim>\<open>./helpers\<close>
  (section 4.1: the timestamp and the coordinates of a raw input event, pure).
\<close>

definition now :: "event \<Rightarrow> int" where
  "now ev = timeStamp ev"

definition pointerCoord :: "event \<Rightarrow> int \<times> int" where
  "pointerCoord ev = coord ev"

text \<open>
  Modelled from the spec: \<^verbatim>\<open>Config.getBoolean(key, fallback)\<close> of \<^verbatim>\<open>../interface\<close>
  (section 6: boolean flags with a default used when the flag is absent).
\<close>

type_synonym config = "string \<rightharpoonup> bool"

definition getBoolean :: "config \<Rightarrow> string \<Rightarrow> bool \<Rightarrow> bool" where
  "getBoolean config key fallback = (case config key of None \<Rightarrow> fallback | Some b \<Rightarrow> b)"

text \<open>
  \<^verbatim>\<open>setTimeout\<close> returns a fresh identifier and records the callback with its delay;
  \<^verbatim>\<open>clearTimeout\<close> forgets the timer, and does nothing for \<^verbatim>\<open>undefined\<close> or for
  a timer that is no longer pending.
\<close>

definition setTimeout :: "state \<Rightarrow> callback \<Rightarrow> int \<Rightarrow> timer_id \<times> state" where
  "setTimeout s cb d =
     (nextTimer s,
      s\<lparr>timers := (timers s)(nextTimer s \<mapsto> \<lparr>setAt = clock s, delay = d, callback = cb\<rparr>),
        nextTimer := Suc (nextTimer s)\<rparr>)"

definition clearTimeout :: "state \<Rightarrow> timer_id option \<Rightarrow> state" where
  "clearTimeout s h = (case h of None \<Rightarrow> s | Some i \<Rightarrow> s\<lparr>timers := (timers s)(i := None)\<rparr>)"

definition classList_contains :: "state \<Rightarrow> elem \<Rightarrow> string \<Rightarrow> bool" where
  "classList_contains s el c = (c \<in> classList s el)"

definition classList_add :: "state \<Rightarrow> elem \<Rightarrow> string \<Rightarrow> state" where
  "classList_add s el c = s\<lparr>classList := (classList s)(el := insert c (classList s el))\<rparr>"

definition classList_remove :: "state \<Rightarrow> elem \<Rightarrow> string \<Rightarrow> state" where
  "classList_remove s el c = s\<lparr>classList := (classList s)(el := classList s el - {c})\<rparr>"

subsection \<open>Module-level functions\<close>

text \<open>
  The loop of \<^verbatim>\<open>getActivatableTarget\<close>: \<^verbatim>\<open>for (i = 0; i < path.length - 2; i++)\<close>,
  with the bound computed on integers as the source does.
\<close>

function scanPath :: "state \<Rightarrow> node list \<Rightarrow> nat \<Rightarrow> elem option" where
  "scanPath s path i =
     (if int i < int (length path) - 2 then
        (case path ! i of
           Element el \<Rightarrow>
             if classList_contains s el ''ion-activatable'' then Some el
             else scanPath s path (Suc i)
         | NoClassList \<Rightarrow> scanPath s path (Suc i))
      else None)"
  by pat_completeness auto
termination
  by (relation "measure (\<lambda>(s, path, i). length path - i)") auto

text \<open>
  \<^verbatim>\<open>Element.closest('.ion-activatable')\<close>, called on an element: the first element with
  the class on its ancestor chain, which starts with the element itself.
\<close>

definition closest :: "state \<Rightarrow> elem list \<Rightarrow> elem option" where
  "closest s chain = find (\<lambda>el. classList_contains s el ''ion-activatable'') chain"

text \<open>
  The loop guards entries without a class list; the fallback calls
  \<^verbatim>\<open>ev.target.closest\<close> unguarded, which throws when the target is not an element.
\<close>

definition getActivatableTarget :: "state \<Rightarrow> event \<Rightarrow> error + elem option" where
  "getActivatableTarget s ev =
     (case composedPath ev of
        Some path \<Rightarrow> Inr (scanPath s path 0)
      | None \<Rightarrow>
          (case targetChain ev of
             None \<Rightarrow> Inl TypeError
           | Some chain \<Rightarrow> Inr (closest s chain)))"

definition isInstant :: "state \<Rightarrow> elem \<Rightarrow> bool" where
  "isInstant s el = classList_contains s el ''ion-activatable-instant''"

definition getRippleEffect :: "state \<Rightarrow> elem \<Rightarrow> ripple_el option" where
  "getRippleEffect s el =
     (case shadowRoot s el of
        Some (Some ripple) \<Rightarrow> Some ripple
      | _ \<Rightarrow> lightRipple s el)"

subsection \<open>The functions of \<^verbatim>\<open>startTapClick\<close>\<close>

definition addActivated :: "state \<Rightarrow> elem \<Rightarrow> int \<Rightarrow> int \<Rightarrow> state" where
  "addActivated s el x y =
     (let s1 = classList_add (s\<lparr>lastActivated := clock s\<rparr>) el ACTIVATED;
          rippleEffect = (if useRippleEffect s1 then getRippleEffect s1 el else None)
      in case rippleEffect of
           None \<Rightarrow> s1
         | Some r \<Rightarrow>
             if hasAddRipple r then
               s1\<lparr>activeRipple := Some (length (addRippleCalls s1)),
                  addRippleCalls := addRippleCalls s1 @ [(r, x, y)]\<rparr>
             else s1)"

definition removeActivated :: "state \<Rightarrow> bool \<Rightarrow> state" where
  "removeActivated s smooth =
     (let s1 = (case activeRipple s of
                  None \<Rightarrow> s
                | Some p \<Rightarrow> s\<lparr>rippleRemovals := rippleRemovals s @ [p]\<rparr>)
      in case activatableEle s1 of
           None \<Rightarrow> s1
         | Some active \<Rightarrow>
             let time = CLEAR_STATE_DEFERS - clock s1 + lastActivated s1
             in if smooth \<and> time > 0 \<and> \<not> isInstant s1 active then
                  (let (deferId, s2) = setTimeout s1 (ClearActivatedCb active) CLEAR_STATE_DEFERS
                   in s2\<lparr>clearDefers := (clearDefers s2)(active \<mapsto> deferId)\<rparr>)
                else classList_remove s1 active ACTIVATED)"

text \<open>The block \<^verbatim>\<open>// deactivate selected\<close> of \<^verbatim>\<open>setActivatedElement\<close>, with its throw.\<close>

definition deactivateSelected :: "state \<Rightarrow> int \<Rightarrow> int \<Rightarrow> error + state" where
  "deactivateSelected s x y =
     (case activatableEle s of
        None \<Rightarrow> Inr s
      | Some a \<Rightarrow>
          if clearDefers s a \<noteq> None then Inl InternalError
          else Inr (removeActivated
                 (if \<not> classList_contains s a ACTIVATED then addActivated s a x y else s) True))"

text \<open>
  The block \<^verbatim>\<open>// activate\<close>. \<^verbatim>\<open>if (deferId)\<close> is a truthiness test: the identifier
  \<open>0\<close> would be skipped like \<^verbatim>\<open>undefined\<close>.
\<close>

definition activate :: "state \<Rightarrow> elem option \<Rightarrow> int \<Rightarrow> int \<Rightarrow> state" where
  "activate s el x y =
     (case el of
        None \<Rightarrow> s
      | Some e \<Rightarrow>
          let s1 = (case clearDefers s e of
                      None \<Rightarrow> s
                    | Some deferId \<Rightarrow>
                        if deferId \<noteq> 0 then
                          (clearTimeout s (Some deferId))\<lparr>clearDefers := (clearDefers s)(e := None)\<rparr>
                        else s);
              d = (if isInstant s1 e then 0 else ADD_ACTIVATED_DEFERS);
              s2 = classList_remove s1 e ACTIVATED;
              (i, s3) = setTimeout s2 (AddActivatedCb e x y) d
          in s3\<lparr>activeDefer := Some i\<rparr>)"

definition setActivatedElement :: "state \<Rightarrow> elem option \<Rightarrow> event \<Rightarrow> error + state" where
  "setActivatedElement s el ev =
     (if el \<noteq> None \<and> el = activatableEle s then Inr s
      else
        let s1 = (clearTimeout s (activeDefer s))\<lparr>activeDefer := None\<rparr>;
            (x, y) = pointerCoord ev
        in case deactivateSelected s1 x y of
             Inl e \<Rightarrow> Inl e
           | Inr s2 \<Rightarrow> Inr ((activate s2 el x y)\<lparr>activatableEle := el\<rparr>))"

definition cancelActive :: "state \<Rightarrow> state" where
  "cancelActive s =
     (let s1 = (clearTimeout s (activeDefer s))\<lparr>activeDefer := None\<rparr>;
          s2 = (if activatableEle s1 \<noteq> None
                then (removeActivated s1 False)\<lparr>activatableEle := None\<rparr>
                else s1)
      in s2\<lparr>cancelled := True\<rparr>)"

text \<open>
  A listener that ends with an exception has already changed closure variables: its result is
  then the exception with the state at the throw. In \<^verbatim>\<open>pointerDown\<close> the TypeError comes
  after \<^verbatim>\<open>cancelled = false\<close>, and the internal error after the first two statements of
  \<^verbatim>\<open>setActivatedElement\<close>.
\<close>

definition pointerDown :: "state \<Rightarrow> event \<Rightarrow> error \<times> state + state" where
  "pointerDown s ev =
     (if activatableEle s \<noteq> None \<or> scrolling s then Inr s
      else
        let s1 = s\<lparr>cancelled := False\<rparr>
        in case getActivatableTarget s1 ev of
             Inl e \<Rightarrow> Inl (e, s1)
           | Inr target \<Rightarrow>
               (case setActivatedElement s1 target ev of
                  Inl e \<Rightarrow> Inl (e, (clearTimeout s1 (activeDefer s1))\<lparr>activeDefer := None\<rparr>)
                | Inr s2 \<Rightarrow> Inr s2))"

definition pointerUp :: "state \<Rightarrow> event \<Rightarrow> error + state \<times> event" where
  "pointerUp s ev =
     (if scrolling s then Inr (s, ev)
      else
        case setActivatedElement s None ev of
          Inl e \<Rightarrow> Inl e
        | Inr s1 \<Rightarrow>
            Inr (s1, if cancelled s1 \<and> cancelable ev
                     then ev\<lparr>preventDefaultCalled := True\<rparr> else ev))"

definition onBodyClick :: "state \<Rightarrow> event \<Rightarrow> event" where
  "onBodyClick s ev =
     (if cancelled s \<or> scrolling s
      then ev\<lparr>preventDefaultCalled := True, stopPropagationCalled := True\<rparr>
      else ev)"

definition onTouchStart :: "state \<Rightarrow> event \<Rightarrow> error \<times> state + state" where
  "onTouchStart s ev = pointerDown (s\<lparr>lastTouch := now ev\<rparr>) ev"

definition onTouchEnd :: "state \<Rightarrow> event \<Rightarrow> error + state \<times> event" where
  "onTouchEnd s ev = pointerUp (s\<lparr>lastTouch := now ev\<rparr>) ev"

definition onMouseDown :: "state \<Rightarrow> event \<Rightarrow> error \<times> state + state" where
  "onMouseDown s ev =
     (let t = now ev - MOUSE_WAIT
      in if lastTouch s < t then pointerDown s ev else Inr s)"

definition onMouseUp :: "state \<Rightarrow> event \<Rightarrow> error + state \<times> event" where
  "onMouseUp s ev =
     (let t = now ev - MOUSE_WAIT
      in if lastTouch s < t then pointerUp s ev else Inr (s, ev))"

definition onIonScrollStart :: "state \<Rightarrow> state" where
  "onIonScrollStart s = cancelActive (s\<lparr>scrolling := True\<rparr>)"

definition onIonScrollEnd :: "state \<Rightarrow> state" where
  "onIonScrollEnd s = s\<lparr>scrolling := False\<rparr>"

text \<open>
  The initial values of the closure variables. The document contributes the class
  lists and ripple sub-elements of its elements and the clock; no timer of the module is
  pending, and the first identifier \<^verbatim>\<open>setTimeout\<close> returns is positive, as the
  platform guarantees.
\<close>

record document =
  docClassList :: "elem \<Rightarrow> string set"
  docShadowRoot :: "elem \<rightharpoonup> ripple_el option"
  docLightRipple :: "elem \<Rightarrow> ripple_el option"
  docClock :: int

definition startTapClick :: "document \<Rightarrow> config \<Rightarrow> state" where
  "startTapClick doc config =
     \<lparr>lastTouch = - MOUSE_WAIT * 10,
      lastActivated = 0,
      cancelled = False,
      scrolling = False,
      activatableEle = None,
      activeRipple = None,
      activeDefer = None,
      useRippleEffect = (getBoolean config ''animated'' True \<and> getBoolean config ''rippleEffect'' True),
      clearDefers = Map.empty,
      classList = docClassList doc,
      shadowRoot = docShadowRoot doc,
      lightRipple = docLightRipple doc,
      clock = docClock doc,
      timers = Map.empty,
      nextTimer = 1,
      addRippleCalls = [],
      rippleRemovals = []\<rparr>"

subsection \<open>The event loop\<close>

text \<open>
  Running a callback the module passed to \<^verbatim>\<open>setTimeout\<close>: the closure of
  \<^verbatim>\<open>setActivatedElement\<close> (add the marker, forget the handle) or the closure of
  \<^verbatim>\<open>removeActivated\<close> (remove the marker, delete the registry entry).
\<close>

definition runCallback :: "state \<Rightarrow> callback \<Rightarrow> state" where
  "runCallback s cb =
     (case cb of
        AddActivatedCb el x y \<Rightarrow> (addActivated s el x y)\<lparr>activeDefer := None\<rparr>
      | ClearActivatedCb active \<Rightarrow>
          (classList_remove s active ACTIVATED)\<lparr>clearDefers := (clearDefers s)(active := None)\<rparr>)"

text \<open>
  A timer fires once, when it is still pending and its delay has passed; otherwise nothing
  happens.
\<close>

definition fireTimer :: "state \<Rightarrow> timer_id \<Rightarrow> state" where
  "fireTimer s i =
     (case timers s i of
        None \<Rightarrow> s
      | Some t \<Rightarrow>
          if clock s < setAt t + delay t then s
          else runCallback (s\<lparr>timers := (timers s)(i := None)\<rparr>) (callback t))"

text \<open>
  What the document delivers to the listeners registered at the end of
  \<^verbatim>\<open>startTapClick\<close>, plus the two things the platform does between events: time passes,
  and a due timer fires.
\<close>

datatype input =
  Click event
| IonScrollStart
| IonScrollEnd
| IonGestureCaptured
| TouchStart event
| TouchCancel event
| TouchEnd event
| MouseDown event
| MouseUp event
| Elapse nat
| Timeout timer_id

definition dropEvent :: "error + state \<times> event \<Rightarrow> error + state" where
  "dropEvent r = (case r of Inl e \<Rightarrow> Inl e | Inr (s, ev) \<Rightarrow> Inr s)"

text \<open>
  The platform reports a TypeError thrown by a listener and goes on delivering events, with
  the closure variables as the listener left them. The internal error is what a trace is
  watched for.
\<close>

definition resume :: "error \<times> state + state \<Rightarrow> error + state" where
  "resume r =
     (case r of
        Inr s \<Rightarrow> Inr s
      | Inl (e, s) \<Rightarrow> (case e of TypeError \<Rightarrow> Inr s | InternalError \<Rightarrow> Inl InternalError))"

fun dispatch :: "state \<Rightarrow> input \<Rightarrow> error + state" where
  "dispatch s (Click ev) = Inr s"
| "dispatch s IonScrollStart = Inr (onIonScrollStart s)"
| "dispatch s IonScrollEnd = Inr (onIonScrollEnd s)"
| "dispatch s IonGestureCaptured = Inr (cancelActive s)"
| "dispatch s (TouchStart ev) = resume (onTouchStart s ev)"
| "dispatch s (TouchCancel ev) = dropEvent (onTouchEnd s ev)"
| "dispatch s (TouchEnd ev) = dropEvent (onTouchEnd s ev)"
| "dispatch s (MouseDown ev) = resume (onMouseDown s ev)"
| "dispatch s (MouseUp ev) = dropEvent (onMouseUp s ev)"
| "dispatch s (Elapse d) = Inr (s\<lparr>clock := clock s + int d\<rparr>)"
| "dispatch s (Timeout i) = Inr (fireTimer s i)"

text \<open>A trace ends at the first internal error.\<close>

fun run :: "state \<Rightarrow> input list \<Rightarrow> error + state" where
  "run s [] = Inr s"
| "run s (i # is) = (case dispatch s i of Inl e \<Rightarrow> Inl e | Inr s' \<Rightarrow> run s' is)"

section \<open>The accordion (src/core/src/components/accordion/accordion.tsx)\<close>

text \<open>
  The accordion-group is another element: the accordion holds a reference to it and
  reads its \<^verbatim>\<open>value\<close> property, which is absent, null, one string or an array of
  strings. The store \<open>groups\<close> gives the current \<^verbatim>\<open>value\<close> of every group element.
\<close>

type_synonym group_ref = nat

datatype group_value = Undefined | Null | Single string | Multiple "string list"

type_synonym groups = "group_ref \<Rightarrow> group_value"

text \<open>The host element: \<open>closestGroup\<close> is what \<^verbatim>\<open>el.closest('ion-accordion-group')\<close> returns.\<close>

record host =
  closestGroup :: "group_ref option"

text \<open>
  The fields of the class. \<open>value_prop\<close> is the property \<^verbatim>\<open>value\<close>, \<open>None\<close> when
  undefined; \<open>accordionGroupEl\<close> is \<open>None\<close> when undefined or null; \<open>ionChangeListener\<close> is the
  set of group elements on which \<^verbatim>\<open>updateState\<close> is registered for \<^verbatim>\<open>ionChange\<close>.
\<close>

record accordion =
  accordionGroupEl :: "group_ref option"
  el :: "host option"
  expanded :: bool
  color :: "string option"
  value_prop :: "string option"
  disabled :: bool
  readonly :: bool
  expand :: string
  ionChangeListener :: "group_ref set"

text \<open>The one method the accordion calls on its group.\<close>

datatype group_call = RequestAccordionToggle group_ref "string option" bool

definition updateState :: "groups \<Rightarrow> accordion \<Rightarrow> accordion" where
  "updateState gs a =
     (case (value_prop a, accordionGroupEl a) of
        (Some accordionValue, Some accordionGroup) \<Rightarrow>
          a\<lparr>expanded :=
              (case gs accordionGroup of
                 Multiple vs \<Rightarrow> accordionValue \<in> set vs
               | Single v \<Rightarrow> v = accordionValue
               | Undefined \<Rightarrow> False
               | Null \<Rightarrow> False)\<rparr>
      | _ \<Rightarrow> a)"

definition connectedCallback :: "groups \<Rightarrow> accordion \<Rightarrow> accordion" where
  "connectedCallback gs a =
     (let accordionGroupEl' = (case el a of None \<Rightarrow> None | Some h \<Rightarrow> closestGroup h);
          a1 = a\<lparr>accordionGroupEl := accordionGroupEl'\<rparr>
      in case accordionGroupEl' of
           None \<Rightarrow> a1
         | Some g \<Rightarrow>
             (let a2 = updateState gs a1
              in a2\<lparr>ionChangeListener := insert g (ionChangeListener a2)\<rparr>))"

definition disconnectedCallback :: "accordion \<Rightarrow> accordion" where
  "disconnectedCallback a =
     (case accordionGroupEl a of
        None \<Rightarrow> a
      | Some g \<Rightarrow> a\<lparr>ionChangeListener := ionChangeListener a - {g}\<rparr>)"

definition toggleExpanded :: "accordion \<Rightarrow> accordion \<times> group_call list" where
  "toggleExpanded a =
     (case accordionGroupEl a of
        Some g \<Rightarrow> (a, [RequestAccordionToggle g (value_prop a) (\<not> expanded a)])
      | None \<Rightarrow> (a, []))"

text \<open>
  The two signals the rendered accordion reacts to: a click on its header button
  (\<^verbatim>\<open>onClick={() => this.toggleExpanded()}\<close>) and an \<^verbatim>\<open>ionChange\<close> dispatched on a
  group element, which runs \<^verbatim>\<open>updateState\<close> when it is registered there.
\<close>

datatype signal = HeaderClick | IonChange group_ref

fun react :: "groups \<Rightarrow> accordion \<Rightarrow> signal \<Rightarrow> accordion \<times> group_call list" where
  "react gs a HeaderClick = toggleExpanded a"
| "react gs a (IonChange g) = (if g \<in> ionChangeListener a then (updateState gs a, []) else (a, []))"

section \<open>Specification-level notions\<close>

subsection \<open>The target resolver as the specification words it\<close>

text \<open>
  The first entry of a list of nodes that is an element carrying the class
  \<^verbatim>\<open>ion-activatable\<close>, scanning from the head (the innermost entry) outward.
\<close>

fun firstActivatable :: "state \<Rightarrow> node list \<Rightarrow> elem option" where
  "firstActivatable s [] = None"
| "firstActivatable s (Element e # ns) =
     (if ''ion-activatable'' \<in> classList s e then Some e else firstActivatable s ns)"
| "firstActivatable s (NoClassList # ns) = firstActivatable s ns"

text \<open>
  Section 4.2: with a composed path, scan it without its last two entries; without one, walk
  the ancestor chain of the event target. The section knows no failure but "not found": a
  target that is not an element has no ancestor that qualifies.
\<close>

definition resolveTarget :: "state \<Rightarrow> event \<Rightarrow> elem option" where
  "resolveTarget s ev =
     (case composedPath ev of
        Some path \<Rightarrow> firstActivatable s (butlast (butlast path))
      | None \<Rightarrow>
          firstActivatable s
            (map Element (case targetChain ev of None \<Rightarrow> [] | Some chain \<Rightarrow> chain)))"

subsection \<open>The accordion's match against the group value\<close>

fun matchesOrContains :: "group_value \<Rightarrow> string \<Rightarrow> bool" where
  "matchesOrContains (Multiple vs) v = (v \<in> set vs)"
| "matchesOrContains (Single w) v = (w = v)"
| "matchesOrContains Undefined v = False"
| "matchesOrContains Null v = False"

subsection \<open>Observations and invariants of the activation engine\<close>

text \<open>The callback of the timer pending under an identifier, and the marker on an element.\<close>

definition pendingCb :: "state \<Rightarrow> timer_id \<Rightarrow> callback option" where
  "pendingCb s i = map_option callback (timers s i)"

definition hasMarker :: "state \<Rightarrow> elem \<Rightarrow> bool" where
  "hasMarker s e = (ACTIVATED \<in> classList s e)"

text \<open>The condition under which \<^verbatim>\<open>removeActivated\<close> defers the removal.\<close>

definition defersClear :: "state \<Rightarrow> bool \<Rightarrow> elem \<Rightarrow> bool" where
  "defersClear s smooth a =
     (smooth \<and> CLEAR_STATE_DEFERS - clock s + lastActivated s > 0 \<and> \<not> isInstant s a)"

text \<open>The element in the activating slot has no entry in the deferred-clear registry.\<close>

definition slotUnregistered :: "state \<Rightarrow> bool" where
  "slotUnregistered s = (\<forall>a. activatableEle s = Some a \<longrightarrow> clearDefers s a = None)"

text \<open>Timer identifiers are positive, so the truthiness test on a registered one succeeds.\<close>

definition idsPositive :: "state \<Rightarrow> bool" where
  "idsPositive s = (nextTimer s \<noteq> 0 \<and> (\<forall>e i. clearDefers s e = Some i \<longrightarrow> i \<noteq> 0))"

text \<open>A pending add-activated timer is the one in \<open>activeDefer\<close>, for the element in the slot.\<close>

definition addTimerOwned :: "state \<Rightarrow> bool" where
  "addTimerOwned s =
     (\<forall>i e x y. pendingCb s i = Some (AddActivatedCb e x y) \<longrightarrow>
        activeDefer s = Some i \<and> activatableEle s = Some e)"

text \<open>A pending deferred-clear timer is the one the registry holds for its element.\<close>

definition clearTimerRegistered :: "state \<Rightarrow> bool" where
  "clearTimerRegistered s =
     (\<forall>i a. pendingCb s i = Some (ClearActivatedCb a) \<longrightarrow> clearDefers s a = Some i)"

text \<open>
  An element carrying the marker is in the slot, or has an entry in the deferred-clear registry,
  or belongs to the set \<open>M\<close> of the elements that carried the marker before the module started.
\<close>

definition markerOwned :: "elem set \<Rightarrow> state \<Rightarrow> bool" where
  "markerOwned M s =
     (\<forall>e. hasMarker s e \<longrightarrow> activatableEle s = Some e \<or> clearDefers s e \<noteq> None \<or> e \<in> M)"

definition consistent :: "elem set \<Rightarrow> state \<Rightarrow> bool" where
  "consistent M s =
     (slotUnregistered s \<and> idsPositive s \<and> addTimerOwned s \<and> clearTimerRegistered s \<and>
      markerOwned M s)"

text \<open>
  Three steps of \<^verbatim>\<open>setActivatedElement\<close> and \<^verbatim>\<open>cancelActive\<close>: dropping the pending
  activation timer, releasing the slot after \<^verbatim>\<open>removeActivated\<close>, and taking the slot
  after the activate block.
\<close>

definition dropDefer :: "state \<Rightarrow> state" where
  "dropDefer s = (clearTimeout s (activeDefer s))\<lparr>activeDefer := None\<rparr>"

definition release :: "state \<Rightarrow> bool \<Rightarrow> state" where
  "release s smooth = (removeActivated s smooth)\<lparr>activatableEle := None\<rparr>"

definition acquire :: "state \<Rightarrow> elem option \<Rightarrow> int \<Rightarrow> int \<Rightarrow> state" where
  "acquire s eo x y = (activate s eo x y)\<lparr>activatableEle := eo\<rparr>"

text \<open>Whether both configuration flags allow ripples.\<close>

definition ripplesEnabled :: "config \<Rightarrow> bool" where
  "ripplesEnabled config =
     (getBoolean config ''animated'' True \<and> getBoolean config ''rippleEffect'' True)"

text \<open>
  What a step may do to the ripple side of the state: the flag computed at start is kept,
  and with the flag off the log of \<^verbatim>\<open>addRipple\<close> calls is kept too.
\<close>

definition rippleFrame :: "state \<Rightarrow> state \<Rightarrow> bool" where
  "rippleFrame s s' =
     (useRippleEffect s' = useRippleEffect s \<and>
      (\<not> useRippleEffect s \<longrightarrow> addRippleCalls s' = addRippleCalls s))"

text \<open>
  The timestamp a touch input leaves in \<open>lastTouch\<close>, and the traces in which no touch input
  carries a timestamp before \<open>t\<close>.
\<close>

fun touchTime :: "input \<Rightarrow> int option" where
  "touchTime (TouchStart ev) = Some (now ev)"
| "touchTime (TouchCancel ev) = Some (now ev)"
| "touchTime (TouchEnd ev) = Some (now ev)"
| "touchTime (Click ev) = None"
| "touchTime IonScrollStart = None"
| "touchTime IonScrollEnd = None"
| "touchTime IonGestureCaptured = None"
| "touchTime (MouseDown ev) = None"
| "touchTime (MouseUp ev) = None"
| "touchTime (Elapse d) = None"
| "touchTime (Timeout i) = None"

fun touchesNotBefore :: "int \<Rightarrow> input list \<Rightarrow> bool" where
  "touchesNotBefore t [] = True"
| "touchesNotBefore t (i # ins) =
     ((case touchTime i of None \<Rightarrow> True | Some u \<Rightarrow> t \<le> u) \<and> touchesNotBefore t ins)"

subsection \<open>Concrete inputs\<close>

text \<open>
  A document with two activatable elements: element 1, which hosts a ripple
  sub-element, and element 2, which is also marked instant.
\<close>

definition exampleDoc :: document where
  "exampleDoc =
     \<lparr>docClassList = (\<lambda>e. if e = 1 then {''ion-activatable''}
                          else if e = 2 then {''ion-activatable'', ''ion-activatable-instant''}
                          else {}),
      docShadowRoot = Map.empty,
      docLightRipple = (\<lambda>e. if e = 1 then Some \<lparr>rippleId = 7, hasAddRipple = True\<rparr> else None),
      docClock = 0\<rparr>"

text \<open>A pointer event on element \<open>e\<close> with timestamp \<open>t\<close>, below body (0) and html (99).\<close>

definition pointerAt :: "elem \<Rightarrow> int \<Rightarrow> event" where
  "pointerAt e t =
     \<lparr>timeStamp = t, coord = (10, 20),
      composedPath = Some [Element e, Element 0, Element 99, NoClassList, NoClassList],
      targetChain = Some [e, 0, 99], cancelable = True,
      preventDefaultCalled = False, stopPropagationCalled = False\<rparr>"

text \<open>Touch on element 1, its marker applied after 200, then 50 more time units pass.\<close>

definition traceSmoothing :: "input list" where
  "traceSmoothing = [TouchStart (pointerAt 1 0), Elapse 200, Timeout 1, Elapse 50]"

definition stateSmoothing :: state where
  "stateSmoothing = projr (run (startTapClick exampleDoc Map.empty) traceSmoothing)"

text \<open>Touch on element 1, a second touch on element 2 after 100, then the first timer is due.\<close>

definition traceTwoDowns :: "input list" where
  "traceTwoDowns =
     [TouchStart (pointerAt 1 0), Elapse 100, TouchStart (pointerAt 2 100), Elapse 100, Timeout 1]"

definition stateTwoDowns :: state where
  "stateTwoDowns = projr (run (startTapClick exampleDoc Map.empty) traceTwoDowns)"

text \<open>
  Element 1 activated and released at 250 (its clear is deferred), element 2 touched at 260
  and, being instant, marked at once.
\<close>

definition traceOverlap :: "input list" where
  "traceOverlap =
     traceSmoothing @ [TouchEnd (pointerAt 1 250), Elapse 10, TouchStart (pointerAt 2 260), Timeout 3]"

definition stateOverlap :: state where
  "stateOverlap = projr (run (startTapClick exampleDoc Map.empty) traceOverlap)"

text \<open>
  A pointer event whose target is the document itself, on a platform without composed paths.
\<close>

definition eventOnDocument :: event where
  "eventOnDocument = (pointerAt 1 0)\<lparr>composedPath := None, targetChain := None\<rparr>"

text \<open>
  After a touch-start on element 1 at 0: the marker is applied at 200, the touch ends at 250,
  and the deferred clear fires at 500, which leaves the slot free and no marker.
\<close>

definition stateTouched :: state where
  "stateTouched = projr (dispatch (startTapClick exampleDoc Map.empty) (TouchStart (pointerAt 1 0)))"

definition traceGhost :: "input list" where
  "traceGhost =
     [Elapse 200, Timeout 1, Elapse 50, TouchEnd (pointerAt 1 250), Elapse 250, Timeout 2]"

definition stateGhost :: state where
  "stateGhost = projr (run stateTouched traceGhost)"

definition exampleAccordion :: accordion where
  "exampleAccordion =
     \<lparr>accordionGroupEl = Some 5, el = Some \<lparr>closestGroup = Some 5\<rparr>, expanded = False,
      color = None, value_prop = Some ''first'', disabled = False, readonly = False,
      expand = ''float'', ionChangeListener = {5}\<rparr>"

text \<open>The same accordion before it is connected: no group reference, no listener.\<close>

definition unconnectedAccordion :: accordion where
  "unconnectedAccordion = exampleAccordion\<lparr>accordionGroupEl := None, ionChangeListener := {}\<rparr>"

definition exampleGroups :: groups where
  "exampleGroups = (\<lambda>g. if g = 5 then Multiple [''first'', ''second''] else Undefined)"

section \<open>Proofs\<close>

declare scanPath.simps [simp del]

lemmas eval_defs = startTapClick_def exampleDoc_def pointerAt_def getBoolean_def
  onTouchStart_def onTouchEnd_def onMouseDown_def onMouseUp_def onIonScrollStart_def
  onIonScrollEnd_def cancelActive_def pointerDown_def pointerUp_def setActivatedElement_def
  deactivateSelected_def activate_def removeActivated_def addActivated_def
  getActivatableTarget_def scanPath.simps closest_def isInstant_def getRippleEffect_def
  classList_contains_def classList_add_def classList_remove_def setTimeout_def clearTimeout_def
  fireTimer_def runCallback_def dropEvent_def resume_def now_def pointerCoord_def
  ACTIVATED_def ADD_ACTIVATED_DEFERS_def CLEAR_STATE_DEFERS_def MOUSE_WAIT_def Let_def

subsection \<open>The target resolver\<close>

lemma drop_butlast2:
  assumes "int i < int (length path) - 2"
  shows "drop i (butlast (butlast path)) = path ! i # drop (Suc i) (butlast (butlast path))"
proof -
  from assms have len: "i < length (butlast (butlast path))" by simp
  have "butlast (butlast path) ! i = path ! i"
    using len by (simp add: nth_butlast)
  with Cons_nth_drop_Suc [OF len] show ?thesis by simp
qed

lemma scanPath_firstActivatable:
  "scanPath s path i = firstActivatable s (drop i (butlast (butlast path)))"
proof (induction s path i rule: scanPath.induct)
  case (1 s path i)
  show ?case
  proof (cases "int i < int (length path) - 2")
    case True
    note d = drop_butlast2 [OF True]
    show ?thesis
    proof (cases "path ! i")
      case (Element e)
      with True 1 d show ?thesis
        by (simp add: scanPath.simps [of s path i] classList_contains_def)
    next
      case NoClassList
      with True 1 d show ?thesis by (simp add: scanPath.simps [of s path i])
    qed
  next
    case False
    then have "drop i (butlast (butlast path)) = []" by simp
    with False show ?thesis by (simp add: scanPath.simps [of s path i])
  qed
qed

lemma closest_firstActivatable: "closest s chain = firstActivatable s (map Element chain)"
  by (induction chain) (simp_all add: closest_def classList_contains_def)

text \<open>
  Where the source returns, it returns what section 4.2 describes; it throws where the event
  has no composed path and its target is not an element.
\<close>

lemma getActivatableTarget_resolveTarget:
  "getActivatableTarget s ev =
     (if composedPath ev = None \<and> targetChain ev = None then Inl TypeError
      else Inr (resolveTarget s ev))"
  by (simp add: getActivatableTarget_def resolveTarget_def scanPath_firstActivatable
      closest_firstActivatable split: option.splits)

lemma getActivatableTarget_error: "getActivatableTarget s ev = Inl e \<Longrightarrow> e = TypeError"
  by (simp add: getActivatableTarget_resolveTarget split: if_splits)

lemma firstActivatable_cong:
  "classList s = classList s' \<Longrightarrow> firstActivatable s ns = firstActivatable s' ns"
  by (induction s ns rule: firstActivatable.induct) simp_all

lemma getActivatableTarget_classList:
  "classList s' = classList s \<Longrightarrow> getActivatableTarget s' ev = getActivatableTarget s ev"
  by (simp add: getActivatableTarget_resolveTarget resolveTarget_def
      firstActivatable_cong [of s' s] split: option.splits)

text \<open>
  C7, at the input where the code departs from it. For an event without a composed path
  whose target is not an element, no element qualifies and the resolver of section 4.2
  answers none, but \<^verbatim>\<open>getActivatableTarget\<close> throws a TypeError at
  \<^verbatim>\<open>ev.target.closest\<close>. The loop over a composed path does guard such entries, and
  returns none for a path made of them.
\<close>

theorem getActivatableTarget_throws:
  "composedPath eventOnDocument = None \<and>
   targetChain eventOnDocument = None \<and>
   resolveTarget (startTapClick exampleDoc Map.empty) eventOnDocument = None \<and>
   getActivatableTarget (startTapClick exampleDoc Map.empty) eventOnDocument = Inl TypeError \<and>
   getActivatableTarget (startTapClick exampleDoc Map.empty)
     (eventOnDocument\<lparr>composedPath := Some [NoClassList, NoClassList, NoClassList]\<rparr>) = Inr None \<and>
   getActivatableTarget (startTapClick exampleDoc Map.empty) (pointerAt 1 0) = Inr (Some 1)"
  by (simp add: eventOnDocument_def resolveTarget_def eval_defs)

subsection \<open>Frame lemmas: what the handlers leave alone\<close>

lemma lastTouch_addActivated: "lastTouch (addActivated s e x y) = lastTouch s"
  by (simp add: addActivated_def classList_add_def Let_def split: option.splits)

lemma lastTouch_removeActivated: "lastTouch (removeActivated s b) = lastTouch s"
  by (simp add: removeActivated_def classList_remove_def setTimeout_def Let_def
      split: option.splits)

lemma lastTouch_deactivateSelected:
  "deactivateSelected s x y = Inr s' \<Longrightarrow> lastTouch s' = lastTouch s"
  by (auto simp: deactivateSelected_def lastTouch_addActivated lastTouch_removeActivated
      split: option.splits if_splits)

lemma lastTouch_activate: "lastTouch (activate s eo x y) = lastTouch s"
  by (simp add: activate_def classList_remove_def setTimeout_def clearTimeout_def Let_def
      split: option.splits)

lemma lastTouch_setActivatedElement:
  "setActivatedElement s eo ev = Inr s' \<Longrightarrow> lastTouch s' = lastTouch s"
  by (auto simp: setActivatedElement_def clearTimeout_def Let_def lastTouch_activate
      split: option.splits if_splits prod.splits sum.splits dest!: lastTouch_deactivateSelected)

lemma lastTouch_pointerDown:
  "resume (pointerDown s ev) = Inr s' \<Longrightarrow> lastTouch s' = lastTouch s"
  by (auto simp: pointerDown_def resume_def clearTimeout_def Let_def
      split: if_splits sum.splits error.splits option.splits
      dest!: lastTouch_setActivatedElement)

lemma lastTouch_pointerUp:
  "dropEvent (pointerUp s ev) = Inr s' \<Longrightarrow> lastTouch s' = lastTouch s"
  by (auto simp: pointerUp_def dropEvent_def split: if_splits sum.splits
      dest!: lastTouch_setActivatedElement)

lemma lastTouch_cancelActive: "lastTouch (cancelActive s) = lastTouch s"
  by (simp add: cancelActive_def clearTimeout_def lastTouch_removeActivated Let_def
      split: option.splits)

lemma lastTouch_fireTimer: "lastTouch (fireTimer s i) = lastTouch s"
  by (simp add: fireTimer_def runCallback_def lastTouch_addActivated classList_remove_def
      split: option.splits callback.splits)

subsection \<open>Cancellation\<close>

text \<open>
  C6. \<^verbatim>\<open>cancelActive\<close> clears the pending activation timer and forgets its handle;
  it schedules nothing and leaves the deferred-clear registry alone (no smoothing); an
  element in the activating slot loses the marker at once; the slot is emptied and the
  cancelled flag set, so that the body click handler calls \<^verbatim>\<open>preventDefault\<close> and
  \<^verbatim>\<open>stopPropagation\<close> on a click that follows.
\<close>

theorem cancelActive_effect:
  "activeDefer (cancelActive s) = None \<and>
   timers (cancelActive s) =
     (case activeDefer s of None \<Rightarrow> timers s | Some i \<Rightarrow> (timers s)(i := None)) \<and>
   nextTimer (cancelActive s) = nextTimer s \<and>
   clearDefers (cancelActive s) = clearDefers s \<and>
   (\<forall>a. activatableEle s = Some a \<longrightarrow> ACTIVATED \<notin> classList (cancelActive s) a) \<and>
   activatableEle (cancelActive s) = None \<and>
   cancelled (cancelActive s) \<and>
   preventDefaultCalled (onBodyClick (cancelActive s) ev) \<and>
   stopPropagationCalled (onBodyClick (cancelActive s) ev)"
  by (auto simp: cancelActive_def removeActivated_def clearTimeout_def classList_remove_def
      onBodyClick_def Let_def split: option.splits)

theorem cancelActive_effect_witness:
  "activatableEle stateSmoothing = Some 1 \<and>
   ACTIVATED \<in> classList stateSmoothing 1 \<and>
   ACTIVATED \<notin> classList (cancelActive stateSmoothing) 1 \<and>
   activatableEle (cancelActive stateSmoothing) = None \<and>
   timers (cancelActive stateSmoothing) 1 = None \<and>
   timers (cancelActive stateSmoothing) 2 = None \<and>
   cancelled (cancelActive stateSmoothing) \<and>
   preventDefaultCalled (onBodyClick (cancelActive stateSmoothing) (pointerAt 1 260)) \<and>
   stopPropagationCalled (onBodyClick (cancelActive stateSmoothing) (pointerAt 1 260))"
proof -
  have s: "activatableEle stateSmoothing = Some 1" "ACTIVATED \<in> classList stateSmoothing 1"
    "activeDefer stateSmoothing = None" "timers stateSmoothing 1 = None"
    "timers stateSmoothing 2 = None"
    by (simp_all add: stateSmoothing_def traceSmoothing_def eval_defs)
  from s cancelActive_effect [of stateSmoothing "pointerAt 1 260"] show ?thesis by simp
qed

subsection \<open>The accordion\<close>

text \<open>
  C10. \<^verbatim>\<open>updateState\<close> leaves the accordion as it is when its value is undefined or
  when no accordion-group was found; otherwise it sets \<open>expanded\<close> to whether the group's
  value equals the accordion's value (a single value) or contains it (an array), and changes
  nothing else. The listener run for the group's \<^verbatim>\<open>ionChange\<close> is this function, and
  \<^verbatim>\<open>connectedCallback\<close> runs it once when a group was found and leaves \<open>expanded\<close>
  alone when none was.
\<close>

theorem updateState_expanded:
  "(value_prop a = None \<or> accordionGroupEl a = None \<longrightarrow> updateState gs a = a) \<and>
   (\<forall>v g. value_prop a = Some v \<and> accordionGroupEl a = Some g \<longrightarrow>
      updateState gs a = a\<lparr>expanded := matchesOrContains (gs g) v\<rparr>) \<and>
   (\<forall>g. g \<in> ionChangeListener a \<longrightarrow> fst (react gs a (IonChange g)) = updateState gs a) \<and>
   (\<forall>h g. el a = Some h \<and> closestGroup h = Some g \<longrightarrow>
      expanded (connectedCallback gs a) = expanded (updateState gs (a\<lparr>accordionGroupEl := Some g\<rparr>))) \<and>
   ((case el a of None \<Rightarrow> None | Some h \<Rightarrow> closestGroup h) = None \<longrightarrow>
      expanded (connectedCallback gs a) = expanded a)"
  by (auto simp: updateState_def connectedCallback_def Let_def
      split: option.splits group_value.splits)

theorem updateState_expanded_witness:
  "updateState exampleGroups exampleAccordion = exampleAccordion\<lparr>expanded := True\<rparr> \<and>
   updateState exampleGroups (exampleAccordion\<lparr>value_prop := None, expanded := True\<rparr>) =
     exampleAccordion\<lparr>value_prop := None, expanded := True\<rparr> \<and>
   updateState exampleGroups (exampleAccordion\<lparr>accordionGroupEl := None\<rparr>) =
     exampleAccordion\<lparr>accordionGroupEl := None\<rparr> \<and>
   expanded (fst (react exampleGroups exampleAccordion (IonChange 5)))"
  using updateState_expanded [of exampleAccordion exampleGroups]
    updateState_expanded [of "exampleAccordion\<lparr>value_prop := None, expanded := True\<rparr>" exampleGroups]
    updateState_expanded [of "exampleAccordion\<lparr>accordionGroupEl := None\<rparr>" exampleGroups]
  by (simp add: exampleAccordion_def exampleGroups_def)

text \<open>
  C9, as the code has it. \<^verbatim>\<open>toggleExpanded\<close> returns the accordion unchanged, with every
  field as it was: with a group it makes the one call
  \<^verbatim>\<open>requestAccordionToggle(value, !expanded)\<close> on it, without a group it makes no call.
  A header click never changes \<open>expanded\<close>, nor does \<^verbatim>\<open>disconnectedCallback\<close>. A change
  of \<open>expanded\<close> is the work of \<^verbatim>\<open>updateState\<close>, which runs for an
  \<^verbatim>\<open>ionChange\<close> of a group the accordion listens to and, once, in
  \<^verbatim>\<open>connectedCallback\<close> when a group is found.
\<close>

theorem toggleExpanded_frame:
  "fst (toggleExpanded a) = a \<and>
   snd (toggleExpanded a) =
     (case accordionGroupEl a of
        Some g \<Rightarrow> [RequestAccordionToggle g (value_prop a) (\<not> expanded a)]
      | None \<Rightarrow> []) \<and>
   (expanded (fst (react gs a sig)) \<noteq> expanded a \<longrightarrow>
      (\<exists>g. sig = IonChange g \<and> g \<in> ionChangeListener a \<and> fst (react gs a sig) = updateState gs a)) \<and>
   expanded (disconnectedCallback a) = expanded a \<and>
   (expanded (connectedCallback gs a) \<noteq> expanded a \<longrightarrow>
      (\<exists>h g. el a = Some h \<and> closestGroup h = Some g \<and>
         expanded (connectedCallback gs a) =
           expanded (updateState gs (a\<lparr>accordionGroupEl := Some g\<rparr>))))"
proof -
  have "expanded (disconnectedCallback a) = expanded a"
    by (simp add: disconnectedCallback_def split: option.splits)
  moreover have "expanded (connectedCallback gs a) \<noteq> expanded a \<longrightarrow>
      (\<exists>h g. el a = Some h \<and> closestGroup h = Some g \<and>
         expanded (connectedCallback gs a) =
           expanded (updateState gs (a\<lparr>accordionGroupEl := Some g\<rparr>)))"
    by (auto simp: connectedCallback_def Let_def split: option.splits)
  moreover have "expanded (fst (react gs a sig)) \<noteq> expanded a \<longrightarrow>
      (\<exists>g. sig = IonChange g \<and> g \<in> ionChangeListener a \<and> fst (react gs a sig) = updateState gs a)"
    by (cases sig) (auto simp: toggleExpanded_def split: option.splits)
  ultimately show ?thesis by (simp add: toggleExpanded_def split: option.splits)
qed

theorem toggleExpanded_frame_witness:
  "toggleExpanded exampleAccordion =
     (exampleAccordion, [RequestAccordionToggle 5 (Some ''first'') True]) \<and>
   toggleExpanded (exampleAccordion\<lparr>accordionGroupEl := None\<rparr>) =
     (exampleAccordion\<lparr>accordionGroupEl := None\<rparr>, []) \<and>
   expanded (fst (react exampleGroups exampleAccordion (IonChange 5))) \<noteq> expanded exampleAccordion \<and>
   fst (react exampleGroups exampleAccordion (IonChange 5)) = updateState exampleGroups exampleAccordion \<and>
   expanded (connectedCallback exampleGroups unconnectedAccordion) \<noteq> expanded unconnectedAccordion \<and>
   expanded (connectedCallback exampleGroups unconnectedAccordion) =
     expanded (updateState exampleGroups (unconnectedAccordion\<lparr>accordionGroupEl := Some 5\<rparr>))"
proof -
  have c: "expanded (fst (react exampleGroups exampleAccordion (IonChange 5))) \<noteq>
      expanded exampleAccordion"
    by (simp add: exampleAccordion_def exampleGroups_def updateState_def)
  have k: "expanded (connectedCallback exampleGroups unconnectedAccordion) \<noteq>
      expanded unconnectedAccordion"
    by (simp add: unconnectedAccordion_def exampleAccordion_def exampleGroups_def
        connectedCallback_def updateState_def Let_def)
  have g: "accordionGroupEl exampleAccordion = Some 5" "value_prop exampleAccordion = Some ''first''"
    "\<not> expanded exampleAccordion"
    "el unconnectedAccordion = Some \<lparr>closestGroup = Some 5\<rparr>"
    by (simp_all add: exampleAccordion_def unconnectedAccordion_def)
  from c k g toggleExpanded_frame [of exampleAccordion exampleGroups "IonChange 5"]
    toggleExpanded_frame [of "exampleAccordion\<lparr>accordionGroupEl := None\<rparr>" exampleGroups HeaderClick]
    toggleExpanded_frame [of unconnectedAccordion exampleGroups HeaderClick]
  show ?thesis by (auto simp: prod_eq_iff)
qed

text \<open>
  C9 as stated fails in its last clause: an accordion that is connected inside a group whose
  value holds its own value becomes expanded in \<^verbatim>\<open>connectedCallback\<close>, with no
  listener registered yet and no \<^verbatim>\<open>ionChange\<close> signal; an \<^verbatim>\<open>ionChange\<close> delivered
  before would have changed nothing.
\<close>

theorem connectedCallback_counterexample:
  "\<not> expanded unconnectedAccordion \<and>
   ionChangeListener unconnectedAccordion = {} \<and>
   fst (react exampleGroups unconnectedAccordion (IonChange 5)) = unconnectedAccordion \<and>
   expanded (connectedCallback exampleGroups unconnectedAccordion)"
  by (simp add: unconnectedAccordion_def exampleAccordion_def exampleGroups_def
      connectedCallback_def updateState_def Let_def)

subsection \<open>Effects of the steps on the observations\<close>

lemmas inv_defs = slotUnregistered_def idsPositive_def addTimerOwned_def
  clearTimerRegistered_def markerOwned_def

lemma dropDefer_proj:
  "activatableEle (dropDefer s) = activatableEle s"
  "clearDefers (dropDefer s) = clearDefers s"
  "nextTimer (dropDefer s) = nextTimer s"
  "activeDefer (dropDefer s) = None"
  "hasMarker (dropDefer s) e = hasMarker s e"
  "pendingCb (dropDefer s) i = (if activeDefer s = Some i then None else pendingCb s i)"
  by (simp_all add: dropDefer_def clearTimeout_def hasMarker_def pendingCb_def split: option.splits)

lemma addActivated_proj:
  "activatableEle (addActivated s e x y) = activatableEle s"
  "clearDefers (addActivated s e x y) = clearDefers s"
  "nextTimer (addActivated s e x y) = nextTimer s"
  "activeDefer (addActivated s e x y) = activeDefer s"
  "hasMarker (addActivated s e x y) e' = (e' = e \<or> hasMarker s e')"
  "pendingCb (addActivated s e x y) i = pendingCb s i"
  by (auto simp: addActivated_def classList_add_def hasMarker_def pendingCb_def Let_def
      split: option.splits)

lemma removeActivated_none:
  assumes "activatableEle s = None"
  shows "activatableEle (removeActivated s b) = None"
    "clearDefers (removeActivated s b) = clearDefers s"
    "nextTimer (removeActivated s b) = nextTimer s"
    "activeDefer (removeActivated s b) = activeDefer s"
    "hasMarker (removeActivated s b) e' = hasMarker s e'"
    "pendingCb (removeActivated s b) i = pendingCb s i"
  using assms
  by (simp_all add: removeActivated_def hasMarker_def pendingCb_def Let_def split: option.splits)

lemma removeActivated_deferred:
  assumes "activatableEle s = Some a" "defersClear s b a"
  shows "activatableEle (removeActivated s b) = Some a"
    "clearDefers (removeActivated s b) = (clearDefers s)(a \<mapsto> nextTimer s)"
    "nextTimer (removeActivated s b) = Suc (nextTimer s)"
    "activeDefer (removeActivated s b) = activeDefer s"
    "hasMarker (removeActivated s b) e' = hasMarker s e'"
    "pendingCb (removeActivated s b) i =
       (if i = nextTimer s then Some (ClearActivatedCb a) else pendingCb s i)"
    "timers (removeActivated s b) =
       (timers s)(nextTimer s \<mapsto>
          \<lparr>setAt = clock s, delay = CLEAR_STATE_DEFERS, callback = ClearActivatedCb a\<rparr>)"
    "classList (removeActivated s b) = classList s"
  using assms
  by (auto simp: removeActivated_def defersClear_def isInstant_def classList_contains_def
      classList_remove_def setTimeout_def hasMarker_def pendingCb_def Let_def split: option.splits)

lemma removeActivated_immediate:
  assumes "activatableEle s = Some a" "\<not> defersClear s b a"
  shows "activatableEle (removeActivated s b) = Some a"
    "clearDefers (removeActivated s b) = clearDefers s"
    "nextTimer (removeActivated s b) = nextTimer s"
    "activeDefer (removeActivated s b) = activeDefer s"
    "hasMarker (removeActivated s b) e' = (e' \<noteq> a \<and> hasMarker s e')"
    "pendingCb (removeActivated s b) i = pendingCb s i"
    "timers (removeActivated s b) = timers s"
  using assms
  by (auto simp: removeActivated_def defersClear_def isInstant_def classList_contains_def
      classList_remove_def hasMarker_def pendingCb_def Let_def split: option.splits)

lemma removeActivated_activeDefer: "activeDefer (removeActivated s b) = activeDefer s"
  by (simp add: removeActivated_def classList_remove_def setTimeout_def Let_def
      split: option.splits)

lemma release_proj:
  "activatableEle (release s b) = None"
  "clearDefers (release s b) = clearDefers (removeActivated s b)"
  "nextTimer (release s b) = nextTimer (removeActivated s b)"
  "activeDefer (release s b) = activeDefer (removeActivated s b)"
  "hasMarker (release s b) e' = hasMarker (removeActivated s b) e'"
  "pendingCb (release s b) i = pendingCb (removeActivated s b) i"
  by (simp_all add: release_def hasMarker_def pendingCb_def)

lemma activate_none: "activate s None x y = s"
  by (simp add: activate_def)

lemma activate_proj:
  assumes "idsPositive s"
  shows "activatableEle (activate s (Some e) x y) = activatableEle s"
    "clearDefers (activate s (Some e) x y) = (clearDefers s)(e := None)"
    "nextTimer (activate s (Some e) x y) = Suc (nextTimer s)"
    "activeDefer (activate s (Some e) x y) = Some (nextTimer s)"
    "hasMarker (activate s (Some e) x y) e' = (e' \<noteq> e \<and> hasMarker s e')"
    "pendingCb (activate s (Some e) x y) i =
       (if i = nextTimer s then Some (AddActivatedCb e x y)
        else if clearDefers s e = Some i then None else pendingCb s i)"
  using assms
  by (auto simp: activate_def idsPositive_def classList_remove_def setTimeout_def
      clearTimeout_def hasMarker_def pendingCb_def Let_def split: option.splits)

lemma acquire_proj:
  "activatableEle (acquire s eo x y) = eo"
  "clearDefers (acquire s eo x y) = clearDefers (activate s eo x y)"
  "nextTimer (acquire s eo x y) = nextTimer (activate s eo x y)"
  "activeDefer (acquire s eo x y) = activeDefer (activate s eo x y)"
  "hasMarker (acquire s eo x y) e' = hasMarker (activate s eo x y) e'"
  "pendingCb (acquire s eo x y) i = pendingCb (activate s eo x y) i"
  by (simp_all add: acquire_def hasMarker_def pendingCb_def)

lemma expire_proj:
  "activatableEle (s\<lparr>timers := (timers s)(i := None)\<rparr>) = activatableEle s"
  "clearDefers (s\<lparr>timers := (timers s)(i := None)\<rparr>) = clearDefers s"
  "nextTimer (s\<lparr>timers := (timers s)(i := None)\<rparr>) = nextTimer s"
  "activeDefer (s\<lparr>timers := (timers s)(i := None)\<rparr>) = activeDefer s"
  "hasMarker (s\<lparr>timers := (timers s)(i := None)\<rparr>) e' = hasMarker s e'"
  "pendingCb (s\<lparr>timers := (timers s)(i := None)\<rparr>) j = (if j = i then None else pendingCb s j)"
  by (simp_all add: hasMarker_def pendingCb_def)

lemma runCallback_add_proj:
  "activatableEle (runCallback s (AddActivatedCb e x y)) = activatableEle s"
  "clearDefers (runCallback s (AddActivatedCb e x y)) = clearDefers s"
  "nextTimer (runCallback s (AddActivatedCb e x y)) = nextTimer s"
  "activeDefer (runCallback s (AddActivatedCb e x y)) = None"
  "hasMarker (runCallback s (AddActivatedCb e x y)) e' = (e' = e \<or> hasMarker s e')"
  "pendingCb (runCallback s (AddActivatedCb e x y)) j = pendingCb s j"
  using addActivated_proj(5,6) [of s e x y]
  by (simp_all add: runCallback_def addActivated_proj hasMarker_def pendingCb_def)

lemma runCallback_clear_proj:
  "activatableEle (runCallback s (ClearActivatedCb a)) = activatableEle s"
  "clearDefers (runCallback s (ClearActivatedCb a)) = (clearDefers s)(a := None)"
  "nextTimer (runCallback s (ClearActivatedCb a)) = nextTimer s"
  "activeDefer (runCallback s (ClearActivatedCb a)) = activeDefer s"
  "hasMarker (runCallback s (ClearActivatedCb a)) e' = (e' \<noteq> a \<and> hasMarker s e')"
  "pendingCb (runCallback s (ClearActivatedCb a)) j = pendingCb s j"
  by (auto simp: runCallback_def classList_remove_def hasMarker_def pendingCb_def)

subsection \<open>The invariant is preserved\<close>

lemma consistent_dropDefer: "consistent M s \<Longrightarrow> consistent M (dropDefer s)"
  unfolding consistent_def inv_defs dropDefer_proj
  by (auto split: if_splits)

lemma consistent_addActivated:
  "consistent M s \<Longrightarrow> activatableEle s = Some e \<Longrightarrow> consistent M (addActivated s e x y)"
  unfolding consistent_def inv_defs addActivated_proj
  by auto

lemma consistent_release:
  assumes "consistent M s" "activeDefer s = None"
  shows "consistent M (release s b)"
proof (cases "activatableEle s")
  case None
  with assms show ?thesis
    unfolding consistent_def inv_defs release_proj
    by (simp add: removeActivated_none)
next
  case (Some a)
  show ?thesis
  proof (cases "defersClear s b a")
    case True
    from assms show ?thesis
      unfolding consistent_def inv_defs release_proj removeActivated_deferred [OF Some True]
      by (auto simp: Some split: if_splits)
  next
    case False
    from assms show ?thesis
      unfolding consistent_def inv_defs release_proj removeActivated_immediate [OF Some False]
      by (auto simp: Some split: if_splits)
  qed
qed

lemma consistent_acquire:
  assumes "consistent M s" "activatableEle s = None" "activeDefer s = None"
  shows "consistent M (acquire s eo x y)"
proof (cases eo)
  case None
  with assms show ?thesis
    unfolding consistent_def inv_defs acquire_proj
    by (simp add: activate_none)
next
  case (Some e)
  from assms have ip: "idsPositive s" by (simp add: consistent_def)
  from assms show ?thesis
    unfolding consistent_def inv_defs acquire_proj Some activate_proj [OF ip]
    by (auto split: if_splits)
qed

lemma activate_slot:
  "(activate (s\<lparr>activatableEle := v\<rparr>) eo x y)\<lparr>activatableEle := w\<rparr> =
   (activate s eo x y)\<lparr>activatableEle := w\<rparr>"
  by (simp add: activate_def classList_remove_def setTimeout_def clearTimeout_def
      isInstant_def classList_contains_def Let_def split: option.splits)

lemma acquire_release:
  "(activate (removeActivated s b) eo x y)\<lparr>activatableEle := eo\<rparr> = acquire (release s b) eo x y"
  by (simp add: acquire_def release_def activate_slot)

lemma setActivatedElement_same:
  "activatableEle s = Some e \<Longrightarrow> setActivatedElement s (Some e) ev = Inr s"
  by (simp add: setActivatedElement_def)

lemma setActivatedElement_other:
  assumes "\<not> (eo \<noteq> None \<and> eo = activatableEle s)" "pointerCoord ev = (x, y)"
  shows "setActivatedElement s eo ev =
     (case deactivateSelected (dropDefer s) x y of
        Inl err \<Rightarrow> Inl err
      | Inr s2 \<Rightarrow> Inr ((activate s2 eo x y)\<lparr>activatableEle := eo\<rparr>))"
  using assms by (auto simp: setActivatedElement_def dropDefer_def)

lemma setActivatedElement_consistent:
  assumes "consistent M s"
  shows "\<exists>s'. setActivatedElement s eo ev = Inr s' \<and> consistent M s'"
proof (cases "eo \<noteq> None \<and> eo = activatableEle s")
  case True
  then obtain e where "eo = Some e" "activatableEle s = Some e" by (metis not_None_eq)
  with assms show ?thesis by (simp add: setActivatedElement_same)
next
  case False
  obtain x y where xy: "pointerCoord ev = (x, y)" by (cases "pointerCoord ev")
  have c1: "consistent M (dropDefer s)" using assms by (rule consistent_dropDefer)
  have d1: "activeDefer (dropDefer s) = None" by (simp add: dropDefer_proj)
  show ?thesis
  proof (cases "activatableEle s")
    case None
    then have "deactivateSelected (dropDefer s) x y = Inr (dropDefer s)"
      by (simp add: deactivateSelected_def dropDefer_proj)
    then have "setActivatedElement s eo ev = Inr (acquire (dropDefer s) eo x y)"
      by (simp add: setActivatedElement_other [OF False xy] acquire_def)
    moreover have "consistent M (acquire (dropDefer s) eo x y)"
      using c1 d1 None by (intro consistent_acquire) (simp_all add: dropDefer_proj)
    ultimately show ?thesis by simp
  next
    case (Some a)
    define s1 where "s1 = (if \<not> classList_contains (dropDefer s) a ACTIVATED
       then addActivated (dropDefer s) a x y else dropDefer s)"
    have slot: "activatableEle (dropDefer s) = Some a" using Some by (simp add: dropDefer_proj)
    from c1 slot have "clearDefers (dropDefer s) a = None"
      by (simp add: consistent_def slotUnregistered_def)
    with slot have "deactivateSelected (dropDefer s) x y = Inr (removeActivated s1 True)"
      by (simp add: deactivateSelected_def s1_def)
    then have "setActivatedElement s eo ev = Inr (acquire (release s1 True) eo x y)"
      by (simp add: setActivatedElement_other [OF False xy] acquire_release)
    moreover have cs1: "consistent M s1"
      using c1 slot by (simp add: s1_def consistent_addActivated)
    have ds1: "activeDefer s1 = None"
      using d1 by (simp add: s1_def addActivated_proj)
    have "consistent M (release s1 True)" using cs1 ds1 by (rule consistent_release)
    moreover have "activatableEle (release s1 True) = None" by (simp add: release_proj)
    moreover have "activeDefer (release s1 True) = None"
      using ds1 by (simp add: release_proj removeActivated_activeDefer)
    ultimately show ?thesis by (simp add: consistent_acquire)
  qed
qed

lemma consistent_flags:
  "consistent M (s\<lparr>cancelled := c\<rparr>) = consistent M s"
  "consistent M (s\<lparr>scrolling := c\<rparr>) = consistent M s"
  "consistent M (s\<lparr>lastTouch := t\<rparr>) = consistent M s"
  "consistent M (s\<lparr>clock := t\<rparr>) = consistent M s"
  by (simp_all add: consistent_def inv_defs hasMarker_def pendingCb_def)

lemma consistent_cancelActive:
  assumes "consistent M s"
  shows "consistent M (cancelActive s)"
proof -
  have c1: "consistent M (dropDefer s)" using assms by (rule consistent_dropDefer)
  have d1: "activeDefer (dropDefer s) = None" by (simp add: dropDefer_proj)
  have "cancelActive s =
      (if activatableEle (dropDefer s) \<noteq> None then release (dropDefer s) False else dropDefer s)
      \<lparr>cancelled := True\<rparr>"
    by (simp add: cancelActive_def dropDefer_def [symmetric] release_def Let_def)
  moreover have "consistent M (release (dropDefer s) False)"
    using c1 d1 by (rule consistent_release)
  ultimately show ?thesis using c1 by (simp add: consistent_flags)
qed

lemma consistent_runCallback:
  assumes "consistent M s" "timers s i = Some t"
  shows "consistent M (runCallback (s\<lparr>timers := (timers s)(i := None)\<rparr>) (callback t))"
proof (cases "callback t")
  case (AddActivatedCb e x y)
  with assms(2) have p: "pendingCb s i = Some (AddActivatedCb e x y)" by (simp add: pendingCb_def)
  with assms(1) have own: "activeDefer s = Some i" "activatableEle s = Some e"
    by (auto simp: consistent_def addTimerOwned_def)
  have uniq: "\<And>j e' x' y'. pendingCb s j = Some (AddActivatedCb e' x' y') \<Longrightarrow> j = i"
    using assms(1) own(1) by (auto simp: consistent_def addTimerOwned_def)
  from assms(1) own show ?thesis
    unfolding AddActivatedCb consistent_def inv_defs runCallback_add_proj expire_proj
    by (auto split: if_splits dest: uniq)
next
  case (ClearActivatedCb a)
  with assms(2) have p: "pendingCb s i = Some (ClearActivatedCb a)" by (simp add: pendingCb_def)
  with assms(1) have reg: "clearDefers s a = Some i"
    by (auto simp: consistent_def clearTimerRegistered_def)
  have uniq: "\<And>j. pendingCb s j = Some (ClearActivatedCb a) \<Longrightarrow> j = i"
    using assms(1) reg by (auto simp: consistent_def clearTimerRegistered_def)
  from assms(1) reg show ?thesis
    unfolding ClearActivatedCb consistent_def inv_defs runCallback_clear_proj expire_proj
    by (auto split: if_splits dest: uniq)
qed

lemma consistent_fireTimer: "consistent M s \<Longrightarrow> consistent M (fireTimer s i)"
  by (simp add: fireTimer_def consistent_runCallback split: option.splits)

lemma pointerDown_consistent:
  assumes "consistent M s"
  shows "\<exists>s'. resume (pointerDown s ev) = Inr s' \<and> consistent M s'"
proof (cases "activatableEle s \<noteq> None \<or> scrolling s")
  case True
  with assms show ?thesis by (auto simp: pointerDown_def resume_def)
next
  case False
  have c: "consistent M (s\<lparr>cancelled := False\<rparr>)" using assms by (simp add: consistent_flags)
  show ?thesis
  proof (cases "getActivatableTarget (s\<lparr>cancelled := False\<rparr>) ev")
    case (Inl e)
    then have "e = TypeError" by (rule getActivatableTarget_error)
    with Inl False c show ?thesis by (simp add: pointerDown_def resume_def Let_def)
  next
    case (Inr target)
    from setActivatedElement_consistent [OF c, of target ev]
    obtain s' where "setActivatedElement (s\<lparr>cancelled := False\<rparr>) target ev = Inr s'"
      "consistent M s'" by blast
    with Inr False show ?thesis by (simp add: pointerDown_def resume_def Let_def)
  qed
qed

lemma pointerUp_consistent:
  assumes "consistent M s"
  shows "\<exists>s'. dropEvent (pointerUp s ev) = Inr s' \<and> consistent M s'"
proof (cases "scrolling s")
  case True
  with assms show ?thesis by (simp add: pointerUp_def dropEvent_def)
next
  case False
  from setActivatedElement_consistent [OF assms, of None ev]
  obtain s' where "setActivatedElement s None ev = Inr s'" "consistent M s'" by blast
  with False show ?thesis by (simp add: pointerUp_def dropEvent_def)
qed

lemma dispatch_consistent:
  assumes "consistent M s"
  shows "\<exists>s'. dispatch s i = Inr s' \<and> consistent M s'"
proof (cases i)
  case (Click ev)
  with assms show ?thesis by simp
next
  case IonScrollStart
  with assms show ?thesis
    by (simp add: onIonScrollStart_def consistent_cancelActive consistent_flags)
next
  case IonScrollEnd
  with assms show ?thesis by (simp add: onIonScrollEnd_def consistent_flags)
next
  case IonGestureCaptured
  with assms show ?thesis by (simp add: consistent_cancelActive)
next
  case (TouchStart ev)
  from assms have "consistent M (s\<lparr>lastTouch := now ev\<rparr>)" by (simp add: consistent_flags)
  from pointerDown_consistent [OF this] TouchStart show ?thesis by (simp add: onTouchStart_def)
next
  case (TouchCancel ev)
  from assms have "consistent M (s\<lparr>lastTouch := now ev\<rparr>)" by (simp add: consistent_flags)
  from pointerUp_consistent [OF this] TouchCancel show ?thesis by (simp add: onTouchEnd_def)
next
  case (TouchEnd ev)
  from assms have "consistent M (s\<lparr>lastTouch := now ev\<rparr>)" by (simp add: consistent_flags)
  from pointerUp_consistent [OF this] TouchEnd show ?thesis by (simp add: onTouchEnd_def)
next
  case (MouseDown ev)
  with assms pointerDown_consistent [OF assms, of ev] show ?thesis
    by (simp add: onMouseDown_def Let_def resume_def)
next
  case (MouseUp ev)
  with assms pointerUp_consistent [OF assms, of ev] show ?thesis
    by (simp add: onMouseUp_def Let_def dropEvent_def)
next
  case (Elapse d)
  with assms show ?thesis by (simp add: consistent_flags)
next
  case (Timeout j)
  with assms show ?thesis by (simp add: consistent_fireTimer)
qed

lemma run_consistent:
  "consistent M s \<Longrightarrow> \<exists>s'. run s ins = Inr s' \<and> consistent M s'"
proof (induction ins arbitrary: s)
  case Nil
  then show ?case by simp
next
  case (Cons i ins)
  from dispatch_consistent [OF Cons.prems, of i]
  obtain s1 where s1: "dispatch s i = Inr s1" "consistent M s1" by blast
  from Cons.IH [OF s1(2)] s1(1) show ?case by simp
qed

lemma startTapClick_consistent:
  "consistent {e. ACTIVATED \<in> docClassList doc e} (startTapClick doc config)"
  by (simp add: consistent_def inv_defs startTapClick_def hasMarker_def pendingCb_def)

subsection \<open>The internal error\<close>

text \<open>
  C5. Whatever inputs the listeners receive after \<^verbatim>\<open>startTapClick\<close> (pointer, click,
  scroll and gesture events, time passing, timers firing), no handler throws the internal
  error: the trace runs to a state in which the element in the activating slot has no entry in the deferred-clear
  registry, so a further call of \<^verbatim>\<open>setActivatedElement\<close> cannot reach the
  \<^verbatim>\<open>internal error\<close> throw either.
\<close>

theorem internal_error_unreachable:
  "\<exists>s. run (startTapClick doc config) ins = Inr s \<and>
       (\<forall>a. activatableEle s = Some a \<longrightarrow> clearDefers s a = None) \<and>
       (\<forall>eo ev. setActivatedElement s eo ev \<noteq> Inl InternalError)"
proof -
  from run_consistent [OF startTapClick_consistent, of doc config ins]
  obtain s where s: "run (startTapClick doc config) ins = Inr s"
    "consistent {e. ACTIVATED \<in> docClassList doc e} s" by blast
  from s(2) have "\<forall>a. activatableEle s = Some a \<longrightarrow> clearDefers s a = None"
    by (simp add: consistent_def slotUnregistered_def)
  moreover have "\<forall>eo ev. setActivatedElement s eo ev \<noteq> Inl InternalError"
    using setActivatedElement_consistent [OF s(2)] by (metis sum.distinct(1))
  ultimately show ?thesis using s(1) by blast
qed

theorem internal_error_unreachable_witness:
  "\<not> isl (run (startTapClick exampleDoc Map.empty) traceOverlap) \<and>
   activatableEle stateOverlap = Some 2 \<and>
   clearDefers stateOverlap 2 = None \<and>
   clearDefers stateOverlap 1 = Some 2 \<and>
   setActivatedElement stateOverlap None (pointerAt 2 300) \<noteq> Inl InternalError"
proof -
  from internal_error_unreachable [of exampleDoc Map.empty traceOverlap]
  obtain s where s: "run (startTapClick exampleDoc Map.empty) traceOverlap = Inr s"
    "\<forall>a. activatableEle s = Some a \<longrightarrow> clearDefers s a = None"
    "\<forall>eo ev. setActivatedElement s eo ev \<noteq> Inl InternalError" by blast
  from s(1) have eq: "stateOverlap = s" by (simp add: stateOverlap_def)
  have "activatableEle stateOverlap = Some 2" "clearDefers stateOverlap 1 = Some 2"
    by (simp_all add: stateOverlap_def traceOverlap_def traceSmoothing_def eval_defs)
  with s eq show ?thesis by auto
qed

subsection \<open>Who carries the marker\<close>

text \<open>
  C3, as the code has it. In a document that starts without markers, after any inputs: an
  element that carries the \<^verbatim>\<open>activated\<close> marker is the element in the activating
  slot or an element whose removal is deferred (it has an entry in the deferred-clear
  registry); a pending add-activated timer is the one held in \<open>activeDefer\<close> and belongs to
  the element in the slot; and the element in the slot has no registry entry. So the slot and
  the pending activation are exclusive, while markers of released elements may overlap with
  the next activation.
\<close>

theorem marker_owners_reachable:
  assumes "\<forall>e. ACTIVATED \<notin> docClassList doc e"
  shows "\<exists>s. run (startTapClick doc config) ins = Inr s \<and>
       (\<forall>e. ACTIVATED \<in> classList s e \<longrightarrow>
          activatableEle s = Some e \<or> clearDefers s e \<noteq> None) \<and>
       (\<forall>i t e x y. timers s i = Some t \<and> callback t = AddActivatedCb e x y \<longrightarrow>
          activatableEle s = Some e \<and> activeDefer s = Some i) \<and>
       (\<forall>a. activatableEle s = Some a \<longrightarrow> clearDefers s a = None)"
proof -
  from assms have M: "{e. ACTIVATED \<in> docClassList doc e} = {}" by simp
  from run_consistent [OF startTapClick_consistent, of doc config ins] M
  obtain s where s: "run (startTapClick doc config) ins = Inr s" "consistent {} s" by auto
  from s(2) have "\<forall>e. ACTIVATED \<in> classList s e \<longrightarrow>
      activatableEle s = Some e \<or> clearDefers s e \<noteq> None"
    by (simp add: consistent_def markerOwned_def hasMarker_def)
  moreover have "\<forall>i t e x y. timers s i = Some t \<and> callback t = AddActivatedCb e x y \<longrightarrow>
      activatableEle s = Some e \<and> activeDefer s = Some i"
  proof (intro allI impI)
    fix i t e x y
    assume "timers s i = Some t \<and> callback t = AddActivatedCb e x y"
    then have "pendingCb s i = Some (AddActivatedCb e x y)" by (simp add: pendingCb_def)
    with s(2) show "activatableEle s = Some e \<and> activeDefer s = Some i"
      unfolding consistent_def addTimerOwned_def by blast
  qed
  moreover from s(2) have "\<forall>a. activatableEle s = Some a \<longrightarrow> clearDefers s a = None"
    by (simp add: consistent_def slotUnregistered_def)
  ultimately show ?thesis using s(1) by blast
qed

theorem marker_owners_reachable_witness:
  "(\<forall>e. ACTIVATED \<notin> docClassList exampleDoc e) \<and>
   \<not> isl (run (startTapClick exampleDoc Map.empty) traceOverlap) \<and>
   ACTIVATED \<in> classList stateOverlap 1 \<and> clearDefers stateOverlap 1 \<noteq> None \<and>
   ACTIVATED \<in> classList stateOverlap 2 \<and> activatableEle stateOverlap = Some 2 \<and>
   clearDefers stateOverlap 2 = None"
proof -
  have h: "\<forall>e. ACTIVATED \<notin> docClassList exampleDoc e"
    by (simp add: exampleDoc_def ACTIVATED_def)
  from marker_owners_reachable [OF h, of Map.empty traceOverlap]
  obtain s where s: "run (startTapClick exampleDoc Map.empty) traceOverlap = Inr s"
    "\<forall>e. ACTIVATED \<in> classList s e \<longrightarrow> activatableEle s = Some e \<or> clearDefers s e \<noteq> None"
    "\<forall>a. activatableEle s = Some a \<longrightarrow> clearDefers s a = None" by blast
  from s(1) have eq: "stateOverlap = s" by (simp add: stateOverlap_def)
  have "ACTIVATED \<in> classList stateOverlap 1" "ACTIVATED \<in> classList stateOverlap 2"
    "activatableEle stateOverlap = Some 2"
    by (simp_all add: stateOverlap_def traceOverlap_def traceSmoothing_def eval_defs)
  with h s eq show ?thesis by auto
qed

text \<open>
  C3 as stated fails: element 1 is released 50 time units after its marker was applied, so
  its removal is deferred; element 2 is touched 10 time units later and, being instant, gets
  its marker at once. Both elements then carry the marker, and element 2 holds the slot.
\<close>

theorem exclusivity_counterexample:
  "\<not> isl (run (startTapClick exampleDoc Map.empty) traceOverlap) \<and>
   ACTIVATED \<in> classList stateOverlap 1 \<and>
   ACTIVATED \<in> classList stateOverlap 2 \<and>
   activatableEle stateOverlap = Some 2 \<and>
   clock stateOverlap = 260 \<and>
   timers stateOverlap 2 =
     Some \<lparr>setAt = 250, delay = 200, callback = ClearActivatedCb 1\<rparr>"
  by (simp add: stateOverlap_def traceOverlap_def traceSmoothing_def eval_defs)

subsection \<open>Smoothing the removal\<close>

text \<open>
  What \<^verbatim>\<open>removeActivated(true)\<close> does for a slot element that is not instant, less
  than \<open>CLEAR_STATE_DEFERS\<close> after \<open>lastActivated\<close>: the marker stays, and the timer that
  removes it is given the delay \<open>CLEAR_STATE_DEFERS\<close>, whatever time has elapsed. The
  remaining duration computed into \<^verbatim>\<open>time\<close> only decides the branch.
\<close>

lemma removeActivated_smooth_delay:
  assumes "activatableEle s = Some a"
    and "clock s - lastActivated s < CLEAR_STATE_DEFERS"
    and "\<not> isInstant s a"
  shows "timers (removeActivated s True) =
           (timers s)(nextTimer s \<mapsto>
              \<lparr>setAt = clock s, delay = CLEAR_STATE_DEFERS, callback = ClearActivatedCb a\<rparr>) \<and>
         clearDefers (removeActivated s True) = (clearDefers s)(a \<mapsto> nextTimer s) \<and>
         classList (removeActivated s True) = classList s \<and>
         (\<forall>d. d < CLEAR_STATE_DEFERS \<longrightarrow>
            fireTimer ((removeActivated s True)\<lparr>clock := clock s + d\<rparr>) (nextTimer s) =
              (removeActivated s True)\<lparr>clock := clock s + d\<rparr>) \<and>
         (\<forall>d. d \<ge> CLEAR_STATE_DEFERS \<longrightarrow>
            ACTIVATED \<notin> classList
              (fireTimer ((removeActivated s True)\<lparr>clock := clock s + d\<rparr>) (nextTimer s)) a)"
proof -
  from assms have dc: "defersClear s True a" by (simp add: defersClear_def)
  note r = removeActivated_deferred [OF assms(1) dc]
  have "\<forall>d. d < CLEAR_STATE_DEFERS \<longrightarrow>
      fireTimer ((removeActivated s True)\<lparr>clock := clock s + d\<rparr>) (nextTimer s) =
        (removeActivated s True)\<lparr>clock := clock s + d\<rparr>"
    by (simp add: fireTimer_def r(7))
  moreover have "\<forall>d. d \<ge> CLEAR_STATE_DEFERS \<longrightarrow>
      ACTIVATED \<notin> classList
        (fireTimer ((removeActivated s True)\<lparr>clock := clock s + d\<rparr>) (nextTimer s)) a"
    by (simp add: fireTimer_def r(7) runCallback_def classList_remove_def)
  ultimately show ?thesis using r(2,7,8) by simp
qed

text \<open>
  C1, at an input where the code departs from it. Element 1 is touched at 0, its marker is
  applied at 200, and \<^verbatim>\<open>removeActivated(true)\<close> runs at 250: 50 time units have elapsed
  and the remaining duration is 150. The removal is scheduled with delay 200, not 150:
  once 150 time units have passed the timer does not fire and the marker is still there; it
  goes once 200 have passed.
\<close>

theorem removeActivated_schedules_full_delay:
  "\<not> isl (run (startTapClick exampleDoc Map.empty) traceSmoothing) \<and>
   activatableEle stateSmoothing = Some 1 \<and>
   clock stateSmoothing - lastActivated stateSmoothing = 50 \<and>
   \<not> isInstant stateSmoothing 1 \<and>
   CLEAR_STATE_DEFERS - (clock stateSmoothing - lastActivated stateSmoothing) = 150 \<and>
   timers (removeActivated stateSmoothing True) 2 =
     Some \<lparr>setAt = 250, delay = 200, callback = ClearActivatedCb 1\<rparr> \<and>
   ACTIVATED \<in> classList
     (fireTimer ((removeActivated stateSmoothing True)\<lparr>clock := clock stateSmoothing + 150\<rparr>) 2) 1 \<and>
   ACTIVATED \<notin> classList
     (fireTimer ((removeActivated stateSmoothing True)\<lparr>clock := clock stateSmoothing + 200\<rparr>) 2) 1"
  by (simp add: stateSmoothing_def traceSmoothing_def eval_defs)

subsection \<open>A pointer-down on a free slot, and on a taken one\<close>

lemma pointerDown_free_slot:
  assumes "activatableEle s = None" and "\<not> scrolling s"
    and "getActivatableTarget s ev = Inr (Some a)"
  shows "pointerDown s ev =
     Inr (acquire (dropDefer (s\<lparr>cancelled := False\<rparr>)) (Some a)
            (fst (pointerCoord ev)) (snd (pointerCoord ev)))"
proof -
  obtain x y where xy: "pointerCoord ev = (x, y)" by (cases "pointerCoord ev")
  have n: "\<not> (Some a \<noteq> None \<and> Some a = activatableEle (s\<lparr>cancelled := False\<rparr>))"
    using assms(1) by simp
  have "deactivateSelected (dropDefer (s\<lparr>cancelled := False\<rparr>)) x y =
      Inr (dropDefer (s\<lparr>cancelled := False\<rparr>))"
    using assms(1) by (simp add: deactivateSelected_def dropDefer_proj)
  then have "setActivatedElement (s\<lparr>cancelled := False\<rparr>) (Some a) ev =
      Inr (acquire (dropDefer (s\<lparr>cancelled := False\<rparr>)) (Some a) x y)"
    by (simp add: setActivatedElement_other [OF n xy] acquire_def)
  moreover have "getActivatableTarget (s\<lparr>cancelled := False\<rparr>) ev = Inr (Some a)"
    using assms(3) by (simp add: getActivatableTarget_classList [of "s\<lparr>cancelled := False\<rparr>" s])
  ultimately show ?thesis using assms(1,2) xy by (simp add: pointerDown_def Let_def)
qed

lemma acquire_fresh:
  "activatableEle (acquire (dropDefer s) (Some a) x y) = Some a"
  "activeDefer (acquire (dropDefer s) (Some a) x y) = Some (nextTimer s)"
  "nextTimer (acquire (dropDefer s) (Some a) x y) = Suc (nextTimer s)"
  "timers (acquire (dropDefer s) (Some a) x y) (nextTimer s) =
     Some \<lparr>setAt = clock s, delay = (if isInstant s a then 0 else ADD_ACTIVATED_DEFERS),
           callback = AddActivatedCb a x y\<rparr>"
  "clock (acquire (dropDefer s) (Some a) x y) = clock s"
  "scrolling (acquire (dropDefer s) (Some a) x y) = scrolling s"
  "e \<noteq> a \<Longrightarrow> classList (acquire (dropDefer s) (Some a) x y) e = classList s e"
  by (simp_all add: acquire_def activate_def dropDefer_def setTimeout_def clearTimeout_def
      classList_remove_def isInstant_def classList_contains_def Let_def split: option.splits)

lemma pointerDown_taken_slot: "activatableEle s \<noteq> None \<Longrightarrow> pointerDown s ev = Inr s"
  by (simp add: pointerDown_def)

text \<open>
  C2, as the code has it. A pointer-down that resolves to \<open>A\<close> while the slot is empty gives
  \<open>A\<close> the slot and starts its activation timer. From then on a pointer-down is ignored in
  every state in which the slot is taken, whatever it resolves to: however much time has
  passed since the pointer-down on \<open>A\<close>, a touch-start that follows changes nothing but
  \<open>lastTouch\<close>; no timer is started for another target, no other element gets the marker,
  and the timer of \<open>A\<close>, once due, applies the marker to \<open>A\<close>, which still holds the slot.
\<close>

theorem pointerDown_while_activating:
  assumes "activatableEle s = None" and "\<not> scrolling s"
    and "getActivatableTarget s evA = Inr (Some a)"
  shows "\<exists>s1. pointerDown s evA = Inr s1 \<and>
           activatableEle s1 = Some a \<and>
           activeDefer s1 = Some (nextTimer s) \<and>
           nextTimer s1 = Suc (nextTimer s) \<and>
           timers s1 (nextTimer s) =
             Some \<lparr>setAt = clock s,
                   delay = (if isInstant s a then 0 else ADD_ACTIVATED_DEFERS),
                   callback = AddActivatedCb a (fst (pointerCoord evA)) (snd (pointerCoord evA))\<rparr> \<and>
           (\<forall>s2. activatableEle s2 \<noteq> None \<longrightarrow> pointerDown s2 evB = Inr s2) \<and>
           (\<forall>d. run s1 [Elapse d, TouchStart evB] =
                  Inr (s1\<lparr>lastTouch := now evB, clock := clock s1 + int d\<rparr>)) \<and>
           (\<forall>d d'. ADD_ACTIVATED_DEFERS \<le> int d + int d' \<longrightarrow>
              (\<exists>s3. run s1 [Elapse d, TouchStart evB, Elapse d', Timeout (nextTimer s)] = Inr s3 \<and>
                 activatableEle s3 = Some a \<and>
                 ACTIVATED \<in> classList s3 a \<and>
                 (\<forall>e. e \<noteq> a \<longrightarrow> classList s3 e = classList s e) \<and>
                 timers s3 = (timers s1)(nextTimer s := None) \<and>
                 nextTimer s3 = nextTimer s1))"
proof -
  define x where "x = fst (pointerCoord evA)"
  define y where "y = snd (pointerCoord evA)"
  define s1 where "s1 = acquire (dropDefer (s\<lparr>cancelled := False\<rparr>)) (Some a) x y"
  have pd: "pointerDown s evA = Inr s1"
    using pointerDown_free_slot [OF assms] by (simp add: s1_def x_def y_def)
  have f: "activatableEle s1 = Some a" "activeDefer s1 = Some (nextTimer s)"
    "nextTimer s1 = Suc (nextTimer s)"
    "timers s1 (nextTimer s) =
       Some \<lparr>setAt = clock s, delay = (if isInstant s a then 0 else ADD_ACTIVATED_DEFERS),
             callback = AddActivatedCb a x y\<rparr>"
    "clock s1 = clock s"
    using acquire_fresh(1-5) [of "s\<lparr>cancelled := False\<rparr>" a x y]
    by (simp_all add: s1_def isInstant_def classList_contains_def)
  have cl: "\<And>e. e \<noteq> a \<Longrightarrow> classList s1 e = classList s e"
    using acquire_fresh(7) [of _ a "s\<lparr>cancelled := False\<rparr>" x y] by (simp add: s1_def)
  have ign: "\<forall>s2. activatableEle s2 \<noteq> None \<longrightarrow> pointerDown s2 evB = Inr s2"
    by (simp add: pointerDown_taken_slot)
  have r2: "\<forall>d. run s1 [Elapse d, TouchStart evB] =
      Inr (s1\<lparr>lastTouch := now evB, clock := clock s1 + int d\<rparr>)"
    using f(1) by (simp add: onTouchStart_def pointerDown_def resume_def)
  have r4: "\<forall>d d'. ADD_ACTIVATED_DEFERS \<le> int d + int d' \<longrightarrow>
      (\<exists>s3. run s1 [Elapse d, TouchStart evB, Elapse d', Timeout (nextTimer s)] = Inr s3 \<and>
         activatableEle s3 = Some a \<and>
         ACTIVATED \<in> classList s3 a \<and>
         (\<forall>e. e \<noteq> a \<longrightarrow> classList s3 e = classList s e) \<and>
         timers s3 = (timers s1)(nextTimer s := None) \<and>
         nextTimer s3 = nextTimer s1)"
    using f cl
    by (auto simp: onTouchStart_def pointerDown_def resume_def fireTimer_def runCallback_def
        addActivated_def classList_add_def ADD_ACTIVATED_DEFERS_def Let_def
        split: option.splits)
  from pd f ign r2 r4 show ?thesis unfolding x_def y_def by blast
qed

theorem pointerDown_while_activating_witness:
  "activatableEle (startTapClick exampleDoc Map.empty) = None \<and>
   \<not> scrolling (startTapClick exampleDoc Map.empty) \<and>
   getActivatableTarget (startTapClick exampleDoc Map.empty) (pointerAt 1 0) = Inr (Some 1) \<and>
   (\<exists>s1. pointerDown (startTapClick exampleDoc Map.empty) (pointerAt 1 0) = Inr s1 \<and>
      activatableEle s1 = Some 1 \<and>
      activeDefer s1 = Some 1 \<and>
      run s1 [Elapse 100, TouchStart (pointerAt 2 100)] =
        Inr (s1\<lparr>lastTouch := 100, clock := clock s1 + 100\<rparr>) \<and>
      (\<exists>s3. run s1 [Elapse 100, TouchStart (pointerAt 2 100), Elapse 100, Timeout 1] = Inr s3 \<and>
         activatableEle s3 = Some 1 \<and>
         ACTIVATED \<in> classList s3 1 \<and>
         ACTIVATED \<notin> classList s3 2 \<and>
         nextTimer s3 = 2))"
proof -
  have h: "activatableEle (startTapClick exampleDoc Map.empty) = None"
    "\<not> scrolling (startTapClick exampleDoc Map.empty)"
    "getActivatableTarget (startTapClick exampleDoc Map.empty) (pointerAt 1 0) = Inr (Some 1)"
    by (simp_all add: eval_defs)
  have n: "nextTimer (startTapClick exampleDoc Map.empty) = 1"
    "ACTIVATED \<notin> classList (startTapClick exampleDoc Map.empty) 2"
    "now (pointerAt 2 100) = 100"
    by (simp_all add: startTapClick_def exampleDoc_def ACTIVATED_def now_def pointerAt_def)
  from pointerDown_while_activating [OF h, of "pointerAt 2 100"]
  obtain s1 where s1: "pointerDown (startTapClick exampleDoc Map.empty) (pointerAt 1 0) = Inr s1"
    "activatableEle s1 = Some 1"
    "activeDefer s1 = Some (nextTimer (startTapClick exampleDoc Map.empty))"
    "nextTimer s1 = Suc (nextTimer (startTapClick exampleDoc Map.empty))"
    "\<forall>d. run s1 [Elapse d, TouchStart (pointerAt 2 100)] =
        Inr (s1\<lparr>lastTouch := now (pointerAt 2 100), clock := clock s1 + int d\<rparr>)"
    "\<forall>d d'. ADD_ACTIVATED_DEFERS \<le> int d + int d' \<longrightarrow>
       (\<exists>s3. run s1 [Elapse d, TouchStart (pointerAt 2 100), Elapse d',
                     Timeout (nextTimer (startTapClick exampleDoc Map.empty))] = Inr s3 \<and>
          activatableEle s3 = Some 1 \<and>
          ACTIVATED \<in> classList s3 1 \<and>
          (\<forall>e. e \<noteq> 1 \<longrightarrow> classList s3 e = classList (startTapClick exampleDoc Map.empty) e) \<and>
          timers s3 = (timers s1)(nextTimer (startTapClick exampleDoc Map.empty) := None) \<and>
          nextTimer s3 = nextTimer s1)"
    by blast
  have d: "ADD_ACTIVATED_DEFERS \<le> int 100 + int 100" by (simp add: ADD_ACTIVATED_DEFERS_def)
  from s1(6) [rule_format, OF d]
  obtain s3 where s3:
    "run s1 [Elapse 100, TouchStart (pointerAt 2 100), Elapse 100,
             Timeout (nextTimer (startTapClick exampleDoc Map.empty))] = Inr s3"
    "activatableEle s3 = Some 1" "ACTIVATED \<in> classList s3 1"
    "\<forall>e. e \<noteq> 1 \<longrightarrow> classList s3 e = classList (startTapClick exampleDoc Map.empty) e"
    "nextTimer s3 = nextTimer s1" by blast
  have a: "activeDefer s1 = Some 1" using s1(3) by (simp add: n)
  have b: "run s1 [Elapse 100, TouchStart (pointerAt 2 100)] =
      Inr (s1\<lparr>lastTouch := 100, clock := clock s1 + 100\<rparr>)"
    using s1(5) [rule_format, of 100] by (simp add: n del: run.simps)
  have c: "run s1 [Elapse 100, TouchStart (pointerAt 2 100), Elapse 100, Timeout 1] = Inr s3"
    using s3(1) by (simp add: n del: run.simps)
  have e: "ACTIVATED \<notin> classList s3 2" using s3(4) n(2) by simp
  have f: "nextTimer s3 = 2" using s3(5) s1(4) by (simp add: n)
  from h s1(1,2) a b c s3(2,3) e f show ?thesis by blast
qed

text \<open>
  C2 as stated fails: element 1 is touched at 0 and element 2 at 100, before the activation
  delay of element 1 has passed. The second touch resolves to element 2 but starts no timer
  (timer 1 is the only one ever created, and it is still the pending one); when it is due,
  element 1 receives the marker and still holds the slot.
\<close>

theorem second_pointerDown_counterexample:
  "\<not> isl (run (startTapClick exampleDoc Map.empty) traceTwoDowns) \<and>
   getActivatableTarget (startTapClick exampleDoc Map.empty) (pointerAt 2 100) = Inr (Some 2) \<and>
   nextTimer (projr (run (startTapClick exampleDoc Map.empty) (take 3 traceTwoDowns))) = 2 \<and>
   activeDefer (projr (run (startTapClick exampleDoc Map.empty) (take 3 traceTwoDowns))) = Some 1 \<and>
   map_option callback
       (timers (projr (run (startTapClick exampleDoc Map.empty) (take 3 traceTwoDowns))) 1) =
     Some (AddActivatedCb 1 10 20) \<and>
   ACTIVATED \<in> classList stateTwoDowns 1 \<and>
   ACTIVATED \<notin> classList stateTwoDowns 2 \<and>
   activatableEle stateTwoDowns = Some 1 \<and>
   nextTimer stateTwoDowns = 2"
  by (simp add: stateTwoDowns_def traceTwoDowns_def eval_defs)

subsection \<open>Touch, then mouse\<close>

lemma dispatch_lastTouch:
  assumes "dispatch s i = Inr s'"
  shows "lastTouch s' = (case touchTime i of None \<Rightarrow> lastTouch s | Some u \<Rightarrow> u)"
proof (cases i)
  case (TouchStart ev)
  with assms lastTouch_pointerDown [of "s\<lparr>lastTouch := now ev\<rparr>" ev s'] show ?thesis
    by (simp add: onTouchStart_def)
next
  case (TouchCancel ev)
  with assms lastTouch_pointerUp [of "s\<lparr>lastTouch := now ev\<rparr>" ev s'] show ?thesis
    by (simp add: onTouchEnd_def)
next
  case (TouchEnd ev)
  with assms lastTouch_pointerUp [of "s\<lparr>lastTouch := now ev\<rparr>" ev s'] show ?thesis
    by (simp add: onTouchEnd_def)
next
  case (MouseDown ev)
  with assms lastTouch_pointerDown [of s ev s'] show ?thesis
    by (auto simp: onMouseDown_def Let_def resume_def split: if_splits)
next
  case (MouseUp ev)
  with assms lastTouch_pointerUp [of s ev s'] show ?thesis
    by (auto simp: onMouseUp_def Let_def dropEvent_def split: if_splits)
next
  case (Click ev)
  with assms show ?thesis by auto
next
  case IonScrollStart
  with assms show ?thesis by (auto simp: onIonScrollStart_def lastTouch_cancelActive)
next
  case IonScrollEnd
  with assms show ?thesis by (auto simp: onIonScrollEnd_def)
next
  case IonGestureCaptured
  with assms show ?thesis by (auto simp: lastTouch_cancelActive)
next
  case (Elapse d)
  with assms show ?thesis by auto
next
  case (Timeout j)
  with assms show ?thesis by (auto simp: lastTouch_fireTimer)
qed

lemma run_lastTouch:
  "run s ins = Inr s' \<Longrightarrow> touchesNotBefore t ins \<Longrightarrow> t \<le> lastTouch s \<Longrightarrow> t \<le> lastTouch s'"
proof (induction ins arbitrary: s)
  case Nil
  then show ?case by simp
next
  case (Cons i ins)
  then obtain s1 where s1: "dispatch s i = Inr s1" "run s1 ins = Inr s'"
    by (auto split: sum.splits)
  from dispatch_lastTouch [OF s1(1)] Cons.prems(2,3) have "t \<le> lastTouch s1"
    by (auto split: option.splits)
  with Cons.IH [OF s1(2)] Cons.prems(2) show ?case by simp
qed

text \<open>
  C4. A touch-start with timestamp \<open>t\<close> records \<open>t\<close> in \<open>lastTouch\<close> and, when the slot is
  free and a target resolves, starts one activation: the target takes the slot and one
  timer is created. Whatever inputs follow (time passing, timers, scrolls, the end of the
  touch, later touches), a mouse-down with timestamp \<open>t'\<close> where \<open>t' - t \<le> MOUSE_WAIT\<close> is
  not forwarded to \<^verbatim>\<open>pointerDown\<close>: the state stays as it is, so no second activation
  starts, also when the slot is free again. A mouse-down later than \<open>MOUSE_WAIT\<close> after the
  last touch is forwarded.
\<close>

theorem mouseDown_after_touchStart:
  assumes "dispatch s (TouchStart ev1) = Inr s1"
    and "touchesNotBefore (now ev1) ins"
    and "run s1 ins = Inr s2"
  shows "lastTouch s1 = now ev1 \<and>
         now ev1 \<le> lastTouch s2 \<and>
         (now ev2 - now ev1 \<le> MOUSE_WAIT \<longrightarrow> onMouseDown s2 ev2 = Inr s2) \<and>
         (now ev2 - lastTouch s2 > MOUSE_WAIT \<longrightarrow> onMouseDown s2 ev2 = pointerDown s2 ev2) \<and>
         (activatableEle s = None \<and> \<not> scrolling s \<and> getActivatableTarget s ev1 = Inr (Some a) \<longrightarrow>
            activatableEle s1 = Some a \<and>
            activeDefer s1 = Some (nextTimer s) \<and>
            nextTimer s1 = Suc (nextTimer s) \<and>
            timers s1 (nextTimer s) =
              Some \<lparr>setAt = clock s,
                    delay = (if isInstant s a then 0 else ADD_ACTIVATED_DEFERS),
                    callback = AddActivatedCb a (fst (pointerCoord ev1)) (snd (pointerCoord ev1))\<rparr>)"
proof -
  from assms(1) have r: "resume (pointerDown (s\<lparr>lastTouch := now ev1\<rparr>) ev1) = Inr s1"
    by (simp add: onTouchStart_def)
  from lastTouch_pointerDown [OF r] have l1: "lastTouch s1 = now ev1" by simp
  from run_lastTouch [OF assms(3,2)] l1 have l2: "now ev1 \<le> lastTouch s2" by simp
  have m1: "now ev2 - now ev1 \<le> MOUSE_WAIT \<longrightarrow> onMouseDown s2 ev2 = Inr s2"
    using l2 by (auto simp: onMouseDown_def Let_def)
  have m2: "now ev2 - lastTouch s2 > MOUSE_WAIT \<longrightarrow> onMouseDown s2 ev2 = pointerDown s2 ev2"
    by (auto simp: onMouseDown_def Let_def)
  have act: "activatableEle s = None \<and> \<not> scrolling s \<and> getActivatableTarget s ev1 = Inr (Some a) \<longrightarrow>
      activatableEle s1 = Some a \<and>
      activeDefer s1 = Some (nextTimer s) \<and>
      nextTimer s1 = Suc (nextTimer s) \<and>
      timers s1 (nextTimer s) =
        Some \<lparr>setAt = clock s,
              delay = (if isInstant s a then 0 else ADD_ACTIVATED_DEFERS),
              callback = AddActivatedCb a (fst (pointerCoord ev1)) (snd (pointerCoord ev1))\<rparr>"
  proof
    assume h: "activatableEle s = None \<and> \<not> scrolling s \<and> getActivatableTarget s ev1 = Inr (Some a)"
    then have g: "getActivatableTarget (s\<lparr>lastTouch := now ev1\<rparr>) ev1 = Inr (Some a)"
      by (simp add: getActivatableTarget_classList [of "s\<lparr>lastTouch := now ev1\<rparr>" s])
    from h have "activatableEle (s\<lparr>lastTouch := now ev1\<rparr>) = None"
      "\<not> scrolling (s\<lparr>lastTouch := now ev1\<rparr>)" by simp_all
    from pointerDown_free_slot [OF this g] r
    have s1: "s1 = acquire (dropDefer (s\<lparr>lastTouch := now ev1, cancelled := False\<rparr>)) (Some a)
        (fst (pointerCoord ev1)) (snd (pointerCoord ev1))"
      by (simp add: resume_def)
    show "activatableEle s1 = Some a \<and>
      activeDefer s1 = Some (nextTimer s) \<and>
      nextTimer s1 = Suc (nextTimer s) \<and>
      timers s1 (nextTimer s) =
        Some \<lparr>setAt = clock s,
              delay = (if isInstant s a then 0 else ADD_ACTIVATED_DEFERS),
              callback = AddActivatedCb a (fst (pointerCoord ev1)) (snd (pointerCoord ev1))\<rparr>"
      using acquire_fresh(1-4) [of "s\<lparr>lastTouch := now ev1, cancelled := False\<rparr>" a
          "fst (pointerCoord ev1)" "snd (pointerCoord ev1)"]
      by (simp add: s1 isInstant_def classList_contains_def)
  qed
  from l1 l2 m1 m2 act show ?thesis by blast
qed

theorem mouseDown_after_touchStart_witness:
  "dispatch (startTapClick exampleDoc Map.empty) (TouchStart (pointerAt 1 0)) = Inr stateTouched \<and>
   touchesNotBefore (now (pointerAt 1 0)) traceGhost \<and>
   run stateTouched traceGhost = Inr stateGhost \<and>
   activatableEle stateTouched = Some 1 \<and>
   nextTimer stateTouched = 2 \<and>
   activatableEle stateGhost = None \<and>
   lastTouch stateGhost = 250 \<and>
   now (pointerAt 2 600) - now (pointerAt 1 0) \<le> MOUSE_WAIT \<and>
   onMouseDown stateGhost (pointerAt 2 600) = Inr stateGhost \<and>
   activatableEle (projr (pointerDown stateGhost (pointerAt 2 600))) = Some 2 \<and>
   now (pointerAt 2 2751) - lastTouch stateGhost > MOUSE_WAIT \<and>
   onMouseDown stateGhost (pointerAt 2 2751) = pointerDown stateGhost (pointerAt 2 2751) \<and>
   activatableEle (projr (onMouseDown stateGhost (pointerAt 2 2751))) = Some 2"
proof -
  have h1: "dispatch (startTapClick exampleDoc Map.empty) (TouchStart (pointerAt 1 0)) =
      Inr stateTouched"
  proof -
    have "\<not> isl (dispatch (startTapClick exampleDoc Map.empty) (TouchStart (pointerAt 1 0)))"
      by (simp add: eval_defs)
    then show ?thesis
      by (cases "dispatch (startTapClick exampleDoc Map.empty) (TouchStart (pointerAt 1 0))")
        (simp_all add: stateTouched_def)
  qed
  have h2: "touchesNotBefore (now (pointerAt 1 0)) traceGhost"
    by (simp add: traceGhost_def now_def pointerAt_def)
  have h3: "run stateTouched traceGhost = Inr stateGhost"
  proof -
    have "\<not> isl (run stateTouched traceGhost)"
      by (simp add: stateTouched_def traceGhost_def eval_defs)
    then show ?thesis by (cases "run stateTouched traceGhost") (simp_all add: stateGhost_def)
  qed
  have v: "activatableEle stateGhost = None" "lastTouch stateGhost = 250"
    "activatableEle (projr (pointerDown stateGhost (pointerAt 2 600))) = Some 2"
    "activatableEle (projr (pointerDown stateGhost (pointerAt 2 2751))) = Some 2"
    by (simp_all add: stateGhost_def stateTouched_def traceGhost_def eval_defs)
  have t: "now (pointerAt 2 600) - now (pointerAt 1 0) \<le> MOUSE_WAIT"
    "now (pointerAt 2 2751) - lastTouch stateGhost > MOUSE_WAIT"
    by (simp_all add: v now_def pointerAt_def MOUSE_WAIT_def)
  have g: "activatableEle (startTapClick exampleDoc Map.empty) = None \<and>
      \<not> scrolling (startTapClick exampleDoc Map.empty) \<and>
      getActivatableTarget (startTapClick exampleDoc Map.empty) (pointerAt 1 0) = Inr (Some 1)"
    "nextTimer (startTapClick exampleDoc Map.empty) = 1"
    by (simp_all add: eval_defs)
  from mouseDown_after_touchStart [OF h1 h2 h3, of "pointerAt 2 600" 1]
    mouseDown_after_touchStart [OF h1 h2 h3, of "pointerAt 2 2751" 1] h1 h2 h3 v t g
  show ?thesis by simp
qed

subsection \<open>Ripples\<close>

lemma rippleFrame_refl: "rippleFrame s s"
  by (simp add: rippleFrame_def)

lemma rippleFrame_trans: "rippleFrame s s1 \<Longrightarrow> rippleFrame s1 s2 \<Longrightarrow> rippleFrame s s2"
  by (auto simp: rippleFrame_def)

lemma rippleFrame_addActivated: "rippleFrame s (addActivated s e x y)"
  by (simp add: rippleFrame_def addActivated_def classList_add_def Let_def split: option.splits)

lemma rippleFrame_removeActivated: "rippleFrame s (removeActivated s b)"
  by (simp add: rippleFrame_def removeActivated_def classList_remove_def setTimeout_def Let_def
      split: option.splits)

lemma rippleFrame_dropDefer: "rippleFrame s (dropDefer s)"
  by (simp add: rippleFrame_def dropDefer_def clearTimeout_def split: option.splits)

lemma rippleFrame_activate: "rippleFrame s ((activate s eo x y)\<lparr>activatableEle := eo\<rparr>)"
  by (simp add: rippleFrame_def activate_def classList_remove_def setTimeout_def
      clearTimeout_def Let_def split: option.splits)

lemma rippleFrame_deactivateSelected:
  "deactivateSelected s x y = Inr s' \<Longrightarrow> rippleFrame s s'"
  by (auto simp: deactivateSelected_def rippleFrame_refl
      intro: rippleFrame_removeActivated
        rippleFrame_trans [OF rippleFrame_addActivated rippleFrame_removeActivated]
      split: option.splits if_splits)

lemma rippleFrame_setActivatedElement:
  assumes "setActivatedElement s eo ev = Inr s'"
  shows "rippleFrame s s'"
proof (cases "eo \<noteq> None \<and> eo = activatableEle s")
  case True
  then obtain e where "eo = Some e" "activatableEle s = Some e" by (metis not_None_eq)
  with assms show ?thesis by (simp add: setActivatedElement_same rippleFrame_refl)
next
  case False
  obtain x y where xy: "pointerCoord ev = (x, y)" by (cases "pointerCoord ev")
  from assms obtain s2 where s2: "deactivateSelected (dropDefer s) x y = Inr s2"
    "s' = (activate s2 eo x y)\<lparr>activatableEle := eo\<rparr>"
    by (auto simp: setActivatedElement_other [OF False xy] split: sum.splits)
  from rippleFrame_trans [OF rippleFrame_dropDefer rippleFrame_deactivateSelected [OF s2(1)]]
    rippleFrame_activate [of s2 eo x y] s2(2)
  show ?thesis by (auto intro: rippleFrame_trans)
qed

lemma rippleFrame_fields:
  "rippleFrame (s\<lparr>cancelled := c\<rparr>) s' = rippleFrame s s'"
  "rippleFrame (s\<lparr>lastTouch := t\<rparr>) s' = rippleFrame s s'"
  "rippleFrame (s\<lparr>scrolling := c\<rparr>) s' = rippleFrame s s'"
  "rippleFrame s (s'\<lparr>cancelled := c\<rparr>) = rippleFrame s s'"
  "rippleFrame s (s'\<lparr>activatableEle := v\<rparr>) = rippleFrame s s'"
  "rippleFrame s (s'\<lparr>scrolling := c\<rparr>) = rippleFrame s s'"
  "rippleFrame s (s'\<lparr>clock := k\<rparr>) = rippleFrame s s'"
  "rippleFrame s (s'\<lparr>activeDefer := h\<rparr>) = rippleFrame s s'"
  by (simp_all add: rippleFrame_def)

lemma rippleFrame_cancelActive: "rippleFrame s (cancelActive s)"
proof -
  have "cancelActive s =
      (if activatableEle (dropDefer s) \<noteq> None then release (dropDefer s) False else dropDefer s)
      \<lparr>cancelled := True\<rparr>"
    by (simp add: cancelActive_def dropDefer_def [symmetric] release_def Let_def)
  moreover have "rippleFrame s (release (dropDefer s) False)"
    using rippleFrame_trans [OF rippleFrame_dropDefer rippleFrame_removeActivated]
    by (simp add: release_def rippleFrame_fields)
  ultimately show ?thesis by (simp add: rippleFrame_fields rippleFrame_dropDefer)
qed

lemma rippleFrame_pointerDown: "resume (pointerDown s ev) = Inr s' \<Longrightarrow> rippleFrame s s'"
  by (auto simp: pointerDown_def resume_def Let_def rippleFrame_def clearTimeout_def
      dest!: rippleFrame_setActivatedElement
      split: if_splits sum.splits error.splits option.splits)

lemma rippleFrame_pointerUp: "dropEvent (pointerUp s ev) = Inr s' \<Longrightarrow> rippleFrame s s'"
  by (auto simp: pointerUp_def dropEvent_def rippleFrame_refl
      dest!: rippleFrame_setActivatedElement split: if_splits sum.splits)

lemma rippleFrame_fireTimer: "useRippleEffect s = False \<Longrightarrow> rippleFrame s (fireTimer s i)"
  by (auto simp: fireTimer_def runCallback_def rippleFrame_def addActivated_def classList_add_def
      classList_remove_def Let_def split: option.splits callback.splits)

lemma useRippleEffect_fireTimer: "useRippleEffect (fireTimer s i) = useRippleEffect s"
  by (auto simp: fireTimer_def runCallback_def addActivated_def classList_add_def
      classList_remove_def Let_def split: option.splits callback.splits)

lemma rippleFrame_dispatch:
  assumes "dispatch s i = Inr s'"
  shows "rippleFrame s s'"
proof (cases i)
  case (Click ev)
  with assms show ?thesis by (auto simp: rippleFrame_refl)
next
  case IonScrollStart
  with assms rippleFrame_cancelActive [of "s\<lparr>scrolling := True\<rparr>"] show ?thesis
    by (auto simp: onIonScrollStart_def rippleFrame_fields)
next
  case IonScrollEnd
  with assms show ?thesis by (auto simp: onIonScrollEnd_def rippleFrame_fields rippleFrame_refl)
next
  case IonGestureCaptured
  with assms show ?thesis by (auto simp: rippleFrame_cancelActive)
next
  case (TouchStart ev)
  with assms show ?thesis
    by (auto simp: onTouchStart_def rippleFrame_fields dest!: rippleFrame_pointerDown)
next
  case (TouchCancel ev)
  with assms show ?thesis
    by (auto simp: onTouchEnd_def rippleFrame_fields dest!: rippleFrame_pointerUp)
next
  case (TouchEnd ev)
  with assms show ?thesis
    by (auto simp: onTouchEnd_def rippleFrame_fields dest!: rippleFrame_pointerUp)
next
  case (MouseDown ev)
  show ?thesis
  proof (cases "lastTouch s < now ev - MOUSE_WAIT")
    case True
    with assms MouseDown have "resume (pointerDown s ev) = Inr s'"
      by (simp add: onMouseDown_def)
    then show ?thesis by (rule rippleFrame_pointerDown)
  next
    case False
    with assms MouseDown show ?thesis
      by (auto simp: onMouseDown_def resume_def rippleFrame_refl)
  qed
next
  case (MouseUp ev)
  show ?thesis
  proof (cases "lastTouch s < now ev - MOUSE_WAIT")
    case True
    with assms MouseUp have "dropEvent (pointerUp s ev) = Inr s'"
      by (simp add: onMouseUp_def)
    then show ?thesis by (rule rippleFrame_pointerUp)
  next
    case False
    with assms MouseUp show ?thesis
      by (auto simp: onMouseUp_def dropEvent_def rippleFrame_refl)
  qed
next
  case (Elapse d)
  with assms show ?thesis by (auto simp: rippleFrame_fields rippleFrame_refl)
next
  case (Timeout j)
  with assms show ?thesis
    using rippleFrame_fireTimer [of s j] useRippleEffect_fireTimer [of s j]
    by (auto simp: rippleFrame_def)
qed

lemma rippleFrame_run: "run s ins = Inr s' \<Longrightarrow> rippleFrame s s'"
proof (induction ins arbitrary: s)
  case Nil
  then show ?case by (simp add: rippleFrame_refl)
next
  case (Cons i ins)
  then obtain s1 where s1: "dispatch s i = Inr s1" "run s1 ins = Inr s'"
    by (auto split: sum.splits)
  from rippleFrame_dispatch [OF s1(1)] Cons.IH [OF s1(2)] show ?case
    by (rule rippleFrame_trans)
qed

text \<open>
  C8. In every state reached after \<^verbatim>\<open>startTapClick(doc, config)\<close>, a call of
  \<^verbatim>\<open>addActivated\<close> adds a call of \<^verbatim>\<open>addRipple\<close> only if both configuration flags,
  \<^verbatim>\<open>animated\<close> and \<^verbatim>\<open>rippleEffect\<close> (true when absent), are true and the element
  hosts a ripple sub-element, and the call is made at the coordinates given; when one of the
  flags is false no ripple has been invoked so far and none is invoked now. In all cases
  the marker is applied and the activation time recorded.
\<close>

theorem addActivated_ripple:
  assumes "run (startTapClick doc config) ins = Inr s"
  shows "(addRippleCalls (addActivated s e x y) \<noteq> addRippleCalls s \<longrightarrow>
            ripplesEnabled config \<and>
            (\<exists>r. getRippleEffect s e = Some r \<and> hasAddRipple r \<and>
                 addRippleCalls (addActivated s e x y) = addRippleCalls s @ [(r, x, y)])) \<and>
         (\<not> ripplesEnabled config \<longrightarrow>
            addRippleCalls s = [] \<and> addRippleCalls (addActivated s e x y) = []) \<and>
         (config ''animated'' = None \<and> config ''rippleEffect'' = None \<longrightarrow> ripplesEnabled config) \<and>
         ACTIVATED \<in> classList (addActivated s e x y) e \<and>
         lastActivated (addActivated s e x y) = clock s"
proof -
  from rippleFrame_run [OF assms]
  have u: "useRippleEffect s = ripplesEnabled config"
    and l: "\<not> ripplesEnabled config \<longrightarrow> addRippleCalls s = []"
    by (simp_all add: rippleFrame_def startTapClick_def ripplesEnabled_def)
  have d: "config ''animated'' = None \<and> config ''rippleEffect'' = None \<longrightarrow> ripplesEnabled config"
    by (simp add: ripplesEnabled_def getBoolean_def)
  from u l d show ?thesis
    by (auto simp: addActivated_def classList_add_def getRippleEffect_def Let_def
        split: option.splits)
qed

theorem addActivated_ripple_witness:
  "run (startTapClick exampleDoc Map.empty) [] = Inr (startTapClick exampleDoc Map.empty) \<and>
   addRippleCalls (addActivated (startTapClick exampleDoc Map.empty) 1 10 20) =
     [(\<lparr>rippleId = 7, hasAddRipple = True\<rparr>, 10, 20)] \<and>
   ripplesEnabled Map.empty \<and>
   run (startTapClick exampleDoc [''rippleEffect'' \<mapsto> False]) [] =
     Inr (startTapClick exampleDoc [''rippleEffect'' \<mapsto> False]) \<and>
   addRippleCalls (addActivated (startTapClick exampleDoc [''rippleEffect'' \<mapsto> False]) 1 10 20) = [] \<and>
   ACTIVATED \<in> classList (addActivated (startTapClick exampleDoc [''rippleEffect'' \<mapsto> False]) 1 10 20) 1"
proof -
  have r1: "run (startTapClick exampleDoc Map.empty) [] = Inr (startTapClick exampleDoc Map.empty)"
    and r2: "run (startTapClick exampleDoc [''rippleEffect'' \<mapsto> False]) [] =
      Inr (startTapClick exampleDoc [''rippleEffect'' \<mapsto> False])"
    by simp_all
  have c: "addRippleCalls (addActivated (startTapClick exampleDoc Map.empty) 1 10 20) \<noteq>
      addRippleCalls (startTapClick exampleDoc Map.empty)"
    by (simp add: eval_defs)
  have e: "addRippleCalls (startTapClick exampleDoc Map.empty) = []"
    "getRippleEffect (startTapClick exampleDoc Map.empty) 1 = Some \<lparr>rippleId = 7, hasAddRipple = True\<rparr>"
    by (simp_all add: eval_defs)
  have off: "\<not> ripplesEnabled [''rippleEffect'' \<mapsto> False]"
    by (simp add: ripplesEnabled_def getBoolean_def)
  from addActivated_ripple [OF r1, of 1 10 20] addActivated_ripple [OF r2, of 1 10 20] c e off r1 r2
  show ?thesis by auto
qed

end
